theory Spec2Isabelle
  imports Main "HOL-Library.Multiset" "HOL-Library.Sublist"
begin

section \<open>JavaScript values used by the paper generator\<close>

text \<open>
  The paper generator (component \<open>PaperGenerator\<close>, functions \<open>generateFromBank\<close> and
  \<open>handleGenerate\<close>) works on JavaScript strings, numbers and arrays.

  \<^item> A string is a \<^typ>\<open>string\<close>; only characters of one byte are represented.
  \<^item> A number that comes out of \<open>parseInt\<close> is an \<^typ>\<open>int\<close>, and \<open>NaN\<close> is \<open>None\<close>.
    Numbers are not rounded to doubles and arrays have no maximal length.
  \<^item> \<open>Math.random()\<close> is an oracle: a sequence of naturals, the \<open>k\<close>-th of which is
    reduced modulo the number of options when an index is drawn.
\<close>

type_synonym number = "int option"

definition isWhiteSpace :: "char \<Rightarrow> bool" where
  "isWhiteSpace c \<longleftrightarrow> c \<in> set [CHR '' '', CHR 0x09, CHR 0x0A, CHR 0x0B, CHR 0x0C, CHR 0x0D, CHR 0xA0]"

definition trim :: "string \<Rightarrow> string" where
  "trim s = rev (dropWhile isWhiteSpace (rev (dropWhile isWhiteSpace s)))"

text \<open>\<open>s.split(c)\<close> for a separator of one character: the pieces between the separators,
  empty pieces kept, so that the empty string gives one empty piece.\<close>

fun split_from :: "char \<Rightarrow> string \<Rightarrow> string \<Rightarrow> string list" where
  "split_from c cur [] = [rev cur]"
| "split_from c cur (x # xs) =
     (if x = c then rev cur # split_from c [] xs else split_from c (x # cur) xs)"

definition split :: "char \<Rightarrow> string \<Rightarrow> string list" where
  "split c s = split_from c [] s"

definition isDigit :: "char \<Rightarrow> bool" where
  "isDigit c \<longleftrightarrow> (48::nat) \<le> of_char c \<and> (of_char c :: nat) \<le> 57"

definition digitValue :: "char \<Rightarrow> int" where
  "digitValue c = of_char c - 48"

definition digitsValue :: "string \<Rightarrow> int" where
  "digitsValue ds = foldl (\<lambda>acc d. 10 * acc + digitValue d) 0 ds"

text \<open>\<open>parseInt(s, 10)\<close>: leading white space is skipped, one sign is read, then the
  longest run of decimal digits; what follows the digits is ignored; no digit gives \<open>NaN\<close>.\<close>

definition parseInt :: "string \<Rightarrow> number" where
  "parseInt s =
     (let t = dropWhile isWhiteSpace s;
          neg = (case t of [] \<Rightarrow> False | c # _ \<Rightarrow> c = CHR ''-'');
          r = (case t of [] \<Rightarrow> [] | c # cs \<Rightarrow> if c = CHR ''-'' \<or> c = CHR ''+'' then cs else t);
          ds = takeWhile isDigit r
      in if ds = [] then None
         else Some (if neg then - digitsValue ds else digitsValue ds))"

definition isNaN :: "number \<Rightarrow> bool" where
  "isNaN n \<longleftrightarrow> n = None"

text \<open>A \<open>Set\<close> keeps its elements in insertion order; adding a present element changes nothing.\<close>

definition set_add :: "'a list \<Rightarrow> 'a \<Rightarrow> 'a list" where
  "set_add s x = (if x \<in> set s then s else s @ [x])"

definition newSet :: "'a list \<Rightarrow> 'a list" where
  "newSet xs = foldl set_add [] xs"

text \<open>A \<open>Map\<close> keeps its entries in the order in which the keys were first set.\<close>

type_synonym ('k, 'v) jsmap = "('k \<times> 'v) list"

fun map_set :: "('k, 'v) jsmap \<Rightarrow> 'k \<Rightarrow> 'v \<Rightarrow> ('k, 'v) jsmap" where
  "map_set [] k v = [(k, v)]"
| "map_set ((k', v') # m) k v = (if k' = k then (k, v) # m else (k', v') # map_set m k v)"

definition map_get_or0 :: "(int, int) jsmap \<Rightarrow> int \<Rightarrow> int" where
  \<comment> \<open>\<open>m.get(k) || 0\<close>\<close>
  "map_get_or0 m k = (case map_of m k of None \<Rightarrow> 0 | Some v \<Rightarrow> v)"

text \<open>\<open>`${n}`\<close> for an integer \<open>n\<close>: its decimal digits, with a minus sign when negative.\<close>

definition digitChar :: "nat \<Rightarrow> char" where
  "digitChar d = char_of (48 + d)"

function showNat :: "nat \<Rightarrow> string" where
  "showNat n = (if n < 10 then [digitChar n] else showNat (n div 10) @ [digitChar (n mod 10)])"
  by pat_completeness auto
termination
  by (relation "measure (\<lambda>n. n)") auto

definition showInt :: "int \<Rightarrow> string" where
  "showInt i = (if i < 0 then CHR ''-'' # showNat (nat (- i)) else showNat (nat i))"

text \<open>\<open>xs.join(sep)\<close>, \<open>s.includes(p)\<close>, \<open>s.indexOf(c)\<close> and \<open>s.substring(start)\<close>.\<close>

fun join :: "string \<Rightarrow> string list \<Rightarrow> string" where
  "join sep [] = []"
| "join sep [x] = x"
| "join sep (x # y # ys) = x @ sep @ join sep (y # ys)"

fun includes_str :: "string \<Rightarrow> string \<Rightarrow> bool" where
  "includes_str [] p = (p = [])"
| "includes_str (c # cs) p = (prefix p (c # cs) \<or> includes_str cs p)"

definition indexOf :: "string \<Rightarrow> char \<Rightarrow> int" where
  "indexOf s c = (if c \<in> set s then int (length (takeWhile (\<lambda>x. x \<noteq> c) s)) else - 1)"

definition substring :: "string \<Rightarrow> int \<Rightarrow> string" where
  "substring s start = drop (nat (max 0 start)) s"

text \<open>\<open>xs.slice(0, end)\<close>: a negative \<open>end\<close> counts from the end of the array.\<close>

definition slice0 :: "int \<Rightarrow> 'a list \<Rightarrow> 'a list" where
  "slice0 end xs =
     (let len = int (length xs);
          final = (if end < 0 then max (len + end) 0 else min end len)
      in take (nat final) xs)"

text \<open>\<open>a % b\<close> takes the sign of \<open>a\<close>; \<open>Math.floor(a / b)\<close> rounds down.\<close>

definition jsrem :: "int \<Rightarrow> int \<Rightarrow> int" where
  "jsrem a b = (if a < 0 then - ((- a) mod \<bar>b\<bar>) else a mod \<bar>b\<bar>)"

definition floordiv :: "int \<Rightarrow> int \<Rightarrow> int" where
  "floordiv a b = a div b"

text \<open>Values that are thrown, and what \<open>JSON.parse\<close> gives. \<open>null\<close> and \<open>undefined\<close> are
  both \<open>JNull\<close>; reading a property of anything but an object gives \<open>undefined\<close>.\<close>

datatype json = JNull | JBool bool | JNum int | JStr string | JArr "json list"
  | JObj "(string \<times> json) list"

fun getProp :: "json \<Rightarrow> string \<Rightarrow> json" where
  "getProp (JObj fields) k = (case map_of fields k of None \<Rightarrow> JNull | Some v \<Rightarrow> v)"
| "getProp _ k = JNull"

section \<open>Questions and papers (\<open>types.ts\<close>)\<close>

datatype Difficulty = Easy | Moderate | Hard

datatype Semester = First | Second | Third

datatype QuestionSource = Manual | Upload | Scan | Generated

datatype Language = en | bn | hi

record UsedIn =
  u_year :: int
  u_semester :: Semester
  paperId :: string

record Question =
  qid :: string
  user_id :: "string option"
  qclass :: int
  qchapter :: string
  qtext :: string
  answer :: "string option"
  qmarks :: int
  difficulty :: Difficulty
  usedIn :: "UsedIn list"
  qsource :: QuestionSource
  qyear :: int
  qsemester :: Semester
  tags :: "string list"
  imageDataURL :: "string option"

record Paper =
  p_id :: string
  p_title :: string
  p_year :: int
  p_class :: int
  p_semester :: Semester
  p_source :: QuestionSource
  p_questions :: "Question list"
  p_createdAt :: string

section \<open>Settings, state and collaborators of the generator\<close>

datatype GenerationMode = DistributionMode | TotalMarksMode

record GeneratorSettings =
  markDistribution :: string
  aiChapter :: string
  aiDifficulty :: Difficulty
  aiKeywords :: string
  aiQuestionType :: "string list"
  aiGenerateAnswers :: bool
  wbbseSyllabusOnly :: bool
  generationMode :: GenerationMode
  s_totalMarks :: string
  s_allowedMarks :: string

text \<open>The criteria of one call of \<open>generateQuestionsAI\<close> and one question of its answer.\<close>

record Criteria =
  c_class :: int
  c_chapter :: string
  c_marks :: int
  c_difficulty :: Difficulty
  c_count :: int
  c_questionType :: string
  c_keywords :: string
  c_generateAnswer :: bool
  c_wbbseSyllabusOnly :: bool
  c_lang :: Language

record Generated =
  g_text :: string
  g_answer :: "string option"
  g_imageDataURL :: "string option"

text \<open>The props and state of the component that \<open>generateFromBank\<close> and \<open>handleGenerate\<close> read.\<close>

record Generator =
  questions :: "Question list"
  lang :: Language
  userApiKey :: "string option"
  title :: string
  year :: int
  selectedClass :: int
  semester :: Semester
  avoidPrevious :: bool
  settings :: GeneratorSettings

text \<open>
  What the environment decides. \<open>Math.random\<close> and the clock: \<open>draws\<close> are the draws of
  \<open>findDistribution\<close>, \<open>shuffle k\<close> is what the \<open>k\<close>-th \<open>sort(() => 0.5 - Math.random())\<close>
  makes of its array, \<open>chapterDraw k\<close> is the draw of the chapter of the \<open>k\<close>-th request,
  \<open>newId k j\<close> is the id given to the \<open>j\<close>-th question of the \<open>k\<close>-th batch, \<open>now\<close> is
  \<open>new Date().toISOString()\<close>. The service: \<open>generateQuestionsAI k\<close> is the outcome of the
  \<open>k\<close>-th request, a thrown value or a batch. \<open>JSON_parse\<close> is \<open>JSON.parse\<close>, \<open>None\<close> when
  it throws.
\<close>

record World =
  draws :: "nat \<Rightarrow> nat"
  shuffle :: "nat \<Rightarrow> Question list \<Rightarrow> Question list"
  chapterDraw :: "nat \<Rightarrow> nat"
  newId :: "nat \<Rightarrow> nat \<Rightarrow> string"
  now :: string
  generateQuestionsAI :: "nat \<Rightarrow> Criteria \<Rightarrow> Question list \<Rightarrow> string option \<Rightarrow> json + Generated list"
  JSON_parse :: "string \<Rightarrow> json option"

section \<open>Effects\<close>

text \<open>A toast shows either a literal text or the translation \<open>t(key, lang)\<close> of a key; the
  translation table is not part of the generator, so the key stands for the text. A request
  is recorded with what it gave back.\<close>

datatype message = Literal string | Translated string

datatype toast_type = Success | Error

datatype effect =
    ShowToast message toast_type
  | ConsoleError string
  | SetIsGenerating bool
  | SetGeneratedPaper "Paper option"
  | Delay nat
  | Request Criteria "json + Generated list"

section \<open>The distribution solver: \<open>findDistribution\<close>\<close>

text \<open>Reading \<open>dp[k]\<close>: outside the array JavaScript gives \<open>undefined\<close>, which is falsy.\<close>

definition dpGet :: "bool list \<Rightarrow> int \<Rightarrow> bool" where
  "dpGet dp k = (if 0 \<le> k \<and> k < int (length dp) then dp ! nat k else False)"

text \<open>The inner loop \<open>for (const mark of uniqueMarks)\<close> with its \<open>break\<close>. The index \<open>i\<close> written
  runs from 1 to \<open>target\<close>, inside the array of length \<open>target + 1\<close>.\<close>

fun dpMarks :: "int list \<Rightarrow> int \<Rightarrow> bool list \<Rightarrow> bool list" where
  "dpMarks [] i dp = dp"
| "dpMarks (mark # marks) i dp =
     (if i \<ge> mark \<and> dpGet dp (i - mark) then dp[nat i := True] else dpMarks marks i dp)"

text \<open>\<open>new Array(target + 1).fill(false)\<close>, \<open>dp[0] = true\<close> and the loop over \<open>i = 1 .. target\<close>.\<close>

definition buildDp :: "int \<Rightarrow> int list \<Rightarrow> bool list" where
  "buildDp target uniqueMarks =
     fold (\<lambda>i dp. dpMarks uniqueMarks (int i) dp) [1 ..< nat target + 1]
          ((replicate (nat (target + 1)) False)[0 := True])"

datatype stuck = Stuck

text \<open>The loop \<open>while (currentTotal > 0)\<close>. The \<open>k\<close>-th call of \<open>Math.random\<close> is \<open>rnd k\<close>,
  and \<open>k\<close> is the number of marks pushed so far. Not leaving the loop is \<open>None\<close>.\<close>

partial_function (option) drawMarks ::
  "(nat \<Rightarrow> nat) \<Rightarrow> int list \<Rightarrow> bool list \<Rightarrow> int \<Rightarrow> int list \<Rightarrow> (stuck + int list) option"
where
  "drawMarks rnd uniqueMarks dp currentTotal resultMarks =
     (if currentTotal > 0 then
        (let possibleMoves =
               filter (\<lambda>mark. currentTotal \<ge> mark \<and> dpGet dp (currentTotal - mark)) uniqueMarks
         in if length possibleMoves = 0 then Some (Inl Stuck)
            else
              (let randomMove =
                     possibleMoves ! (rnd (length resultMarks) mod length possibleMoves)
               in drawMarks rnd uniqueMarks dp (currentTotal - randomMove)
                    (resultMarks @ [randomMove])))
      else Some (Inr resultMarks))"

declare drawMarks.simps [code]

text \<open>The loop that counts the drawn marks in \<open>distributionMap\<close>.\<close>

definition countMarks :: "int list \<Rightarrow> (int, int) jsmap" where
  "countMarks resultMarks =
     foldl (\<lambda>distributionMap mark. map_set distributionMap mark (map_get_or0 distributionMap mark + 1))
       [] resultMarks"

definition parseAllowedMarks :: "string \<Rightarrow> int list" where
  \<comment> \<open>\<open>[...new Set(allowedMarks.split(',').map(s => parseInt(s.trim(), 10)).filter(m => !isNaN(m) && m > 0))]\<close>\<close>
  "parseAllowedMarks allowedMarks =
     newSet (map the (filter (\<lambda>m. \<not> isNaN m \<and> the m > 0)
                        (map (\<lambda>s. parseInt (trim s)) (split CHR '','' allowedMarks))))"

definition invalidToast :: effect where
  "invalidToast = ShowToast (Literal ''Invalid total marks or allowed marks.'') Error"

definition stuckError :: effect where
  "stuckError = ConsoleError ''Stuck in distribution generation, this should not happen.''"

text \<open>\<open>findDistribution\<close>: the effects it performs and the value it returns (\<open>None\<close> is
  \<open>null\<close>); the outer \<open>option\<close> is \<open>None\<close> when the call does not return.\<close>

definition findDistribution ::
  "(nat \<Rightarrow> nat) \<Rightarrow> string \<Rightarrow> string \<Rightarrow> (effect list \<times> (int \<times> int) list option) option"
where
  "findDistribution rnd totalMarks allowedMarks =
     (let target = parseInt totalMarks;
          uniqueMarks = parseAllowedMarks allowedMarks
      in if isNaN target \<or> the target \<le> 0 \<or> length uniqueMarks = 0
         then Some ([invalidToast], None)
         else
           (let dp = buildDp (the target) uniqueMarks
            in if \<not> dpGet dp (the target) then Some ([], None)
               else
                 (case drawMarks rnd uniqueMarks dp (the target) [] of
                    None \<Rightarrow> None
                  | Some (Inl Stuck) \<Rightarrow> Some ([stuckError], None)
                  | Some (Inr resultMarks) \<Rightarrow>
                      Some ([], Some (map (\<lambda>(mark, count). (count, mark)) (countMarks resultMarks))))))"

section \<open>The explicit distribution: the first branch of \<open>handleGenerate\<close>\<close>

definition parseDistribution :: "string \<Rightarrow> (int \<times> int) list" where
  \<comment> \<open>\<open>split(',').map(s => s.trim().split('x').map(p => parseInt(p, 10))).filter(...)\<close>\<close>
  "parseDistribution md =
     map (\<lambda>parts. (the (parts ! 0), the (parts ! 1)))
       (filter (\<lambda>parts. length parts = 2 \<and> \<not> isNaN (parts ! 0) \<and> \<not> isNaN (parts ! 1))
          (map (\<lambda>s. map parseInt (split CHR ''x'' (trim s))) (split CHR '','' md)))"

definition formatToast :: effect where
  "formatToast = ShowToast (Literal ''Invalid mark distribution format.'') Error"

text \<open>The branch \<open>generationMode === 'distribution'\<close>: its effects and the distribution, \<open>None\<close>
  when it returns early.\<close>

definition explicitDistribution :: "string \<Rightarrow> effect list \<times> (int \<times> int) list option" where
  "explicitDistribution md =
     (let distribution = parseDistribution md
      in if length distribution = 0 \<and> trim md \<noteq> []
         then ([formatToast, SetIsGenerating False], None)
         else ([], Some distribution))"

text \<open>What the filter keeps, in the words of the specification: a segment survives when,
  trimmed and split on \<open>x\<close>, it has exactly two parts and both parse as integers.\<close>

definition segmentPair :: "string \<Rightarrow> (int \<times> int) option" where
  "segmentPair seg =
     (case split CHR ''x'' (trim seg) of
        [p, q] \<Rightarrow> (case (parseInt p, parseInt q) of (Some a, Some b) \<Rightarrow> Some (a, b) | _ \<Rightarrow> None)
      | _ \<Rightarrow> None)"

section \<open>Sampling from the bank: \<open>generateFromBank\<close>\<close>

definition bankPool :: "Generator \<Rightarrow> Question list" where
  "bankPool g =
     (let sourcePool = filter (\<lambda>q. qclass q = selectedClass g) (questions g)
      in if avoidPrevious g then filter (\<lambda>q. length (usedIn q) = 0) sourcePool else sourcePool)"

definition requiredCounts :: "(int \<times> int) list \<Rightarrow> (int, int) jsmap" where
  "requiredCounts distribution =
     foldl (\<lambda>rc (count, marks). map_set rc marks (map_get_or0 rc marks + count)) [] distribution"

definition missingMessage :: "int \<Rightarrow> int \<Rightarrow> int \<Rightarrow> string" where
  \<comment> \<open>\<open>`need ${requiredCount} for ${marks} marks (found ${availableCount})`\<close>\<close>
  "missingMessage requiredCount marks availableCount =
     ''need '' @ showInt requiredCount @ '' for '' @ showInt marks @ '' marks (found '' @
     showInt availableCount @ '')''"

definition missingMessages :: "Question list \<Rightarrow> (int, int) jsmap \<Rightarrow> string list" where
  "missingMessages sourcePool rc =
     foldl (\<lambda>mm (marks, requiredCount).
              (let availableCount = int (length (filter (\<lambda>q. qmarks q = marks) sourcePool))
               in if availableCount < requiredCount
                  then mm @ [missingMessage requiredCount marks availableCount] else mm))
       [] rc"

text \<open>The second loop over the distribution; \<open>sh k\<close> is the shuffle of the \<open>k\<close>-th group.\<close>

fun selectQuestions ::
  "(nat \<Rightarrow> Question list \<Rightarrow> Question list) \<Rightarrow> nat \<Rightarrow> (int \<times> int) list \<Rightarrow>
     Question list \<Rightarrow> Question list \<Rightarrow> Question list"
where
  "selectQuestions sh k [] sourcePool finalQuestions = finalQuestions"
| "selectQuestions sh k ((cnt, marks) # rest) sourcePool finalQuestions =
     (let suitableQuestions = filter (\<lambda>q. qmarks q = marks) sourcePool;
          selected = slice0 cnt (sh k suitableQuestions)
      in selectQuestions sh (Suc k) rest
           (filter (\<lambda>q. \<not> list_ex (\<lambda>s. qid s = qid q) selected) sourcePool)
           (finalQuestions @ selected))"

definition generateFromBank :: "World \<Rightarrow> Generator \<Rightarrow> (int \<times> int) list \<Rightarrow> string + Question list" where
  "generateFromBank w g distribution =
     (let sourcePool = bankPool g;
          mm = missingMessages sourcePool (requiredCounts distribution)
      in if length mm > 0
         then Inl (''Not enough questions in bank: '' @ join ''; '' mm @ ''.'')
         else Inr (selectQuestions (shuffle w) 0 distribution sourcePool []))"

definition createPaper :: "World \<Rightarrow> Generator \<Rightarrow> Question list \<Rightarrow> QuestionSource \<Rightarrow> Paper" where
  "createPaper w g qs src =
     \<lparr> p_id = now w,
       p_title = (if trim (title g) \<noteq> [] then trim (title g)
                  else ''Class '' @ showInt (selectedClass g) @ '' Paper - '' @ showInt (year g)),
       p_year = year g, p_class = selectedClass g, p_semester = semester g, p_source = src,
       p_questions = qs, p_createdAt = now w \<rparr>"

section \<open>The AI path of \<open>handleGenerate\<close>\<close>

text \<open>The requests of one group: the count divided over the selected question types.\<close>

definition requestsToMake :: "int \<Rightarrow> string list \<Rightarrow> (int \<times> string) list" where
  "requestsToMake cnt types =
     (let selectedTypes = (if length types > 0 then types else [''Short Answer''])
      in if length selectedTypes \<le> 1 then [(cnt, selectedTypes ! 0)]
         else
           (let numTypes = int (length selectedTypes);
                baseCount = floordiv cnt numTypes;
                remainder = jsrem cnt numTypes
            in concat (map (\<lambda>i. (let subCount = baseCount + (if int i < remainder then 1 else 0)
                                  in if subCount > 0 then [(subCount, selectedTypes ! i)] else []))
                         [0 ..< length selectedTypes])))"

text \<open>The accumulators of one run, the number of requests made and the effects so far.\<close>

record AIState =
  finalQuestions :: "Question list"
  existingQuestionPool :: "Question list"
  calls :: nat
  trace :: "effect list"

definition newQuestions ::
  "World \<Rightarrow> Generator \<Rightarrow> nat \<Rightarrow> string \<Rightarrow> int \<Rightarrow> Generated list \<Rightarrow> Question list"
where
  "newQuestions w g k chapterForThisGroup marks generatedBatch =
     map (\<lambda>(j, gq).
            \<lparr> qid = newId w k j, user_id = None, qclass = selectedClass g,
              qchapter = chapterForThisGroup, qtext = g_text gq, answer = g_answer gq,
              qmarks = marks, difficulty = aiDifficulty (settings g), usedIn = [],
              qsource = Generated, qyear = year g, qsemester = semester g,
              tags = filter (\<lambda>t. t \<noteq> []) (map trim (split CHR '','' (aiKeywords (settings g)))),
              imageDataURL = g_imageDataURL gq \<rparr>)
         (enumerate 0 generatedBatch)"

text \<open>The loop \<open>for (const request of requestsToMake)\<close>; a thrown value ends it.\<close>

definition chapterFor :: "World \<Rightarrow> string list \<Rightarrow> nat \<Rightarrow> string" where
  \<comment> \<open>\<open>aiChapters[Math.floor(Math.random() * aiChapters.length)]\<close> for the \<open>k\<close>-th request\<close>
  "chapterFor w aiChapters k = aiChapters ! (chapterDraw w k mod length aiChapters)"

definition requestCriteria :: "Generator \<Rightarrow> string \<Rightarrow> int \<Rightarrow> int \<Rightarrow> string \<Rightarrow> Criteria" where
  "requestCriteria g chapterForThisGroup marks cnt qtype =
     \<lparr> c_class = selectedClass g, c_chapter = chapterForThisGroup, c_marks = marks,
       c_difficulty = aiDifficulty (settings g), c_count = cnt,
       c_questionType = qtype, c_keywords = aiKeywords (settings g),
       c_generateAnswer = aiGenerateAnswers (settings g),
       c_wbbseSyllabusOnly = wbbseSyllabusOnly (settings g), c_lang = lang g \<rparr>"

fun makeRequests ::
  "World \<Rightarrow> Generator \<Rightarrow> string list \<Rightarrow> int \<Rightarrow> (int \<times> string) list \<Rightarrow> AIState \<Rightarrow>
     json option \<times> AIState"
where
  "makeRequests w g aiChapters marks [] st = (None, st)"
| "makeRequests w g aiChapters marks ((cnt, qtype) # rest) st =
     (let delayed = (if length (finalQuestions st) > 0 then [Delay 1500] else []);
          chapterForThisGroup = chapterFor w aiChapters (calls st);
          criteria = requestCriteria g chapterForThisGroup marks cnt qtype;
          outcome = generateQuestionsAI w (calls st) criteria (existingQuestionPool st) (userApiKey g);
          st1 = st \<lparr> calls := Suc (calls st), trace := trace st @ delayed @ [Request criteria outcome] \<rparr>
      in case outcome of
           Inl error \<Rightarrow> (Some error, st1)
         | Inr generatedBatch \<Rightarrow>
             makeRequests w g aiChapters marks rest
               (if length generatedBatch > 0
                then (let new = newQuestions w g (calls st) chapterForThisGroup marks generatedBatch
                      in st1 \<lparr> finalQuestions := finalQuestions st1 @ new,
                               existingQuestionPool := existingQuestionPool st1 @ new \<rparr>)
                else st1))"

text \<open>The loop \<open>for (const [count, marks] of distribution)\<close>.\<close>

fun generateGroups ::
  "World \<Rightarrow> Generator \<Rightarrow> string list \<Rightarrow> (int \<times> int) list \<Rightarrow> AIState \<Rightarrow> json option \<times> AIState"
where
  "generateGroups w g aiChapters [] st = (None, st)"
| "generateGroups w g aiChapters ((cnt, marks) # rest) st =
     (if cnt \<le> 0 then generateGroups w g aiChapters rest st
      else
        (case makeRequests w g aiChapters marks (requestsToMake cnt (aiQuestionType (settings g))) st of
           (Some error, st') \<Rightarrow> (Some error, st')
         | (None, st') \<Rightarrow> generateGroups w g aiChapters rest st'))"

text \<open>The classification of a thrown value in the \<open>catch\<close> block. Reading \<open>error.message\<close> of
  \<open>null\<close> or \<open>undefined\<close> throws a \<open>TypeError\<close>.\<close>

definition quotaSignature :: "json \<Rightarrow> bool" where
  "quotaSignature e \<longleftrightarrow>
     getProp (getProp e ''error'') ''status'' = JStr ''RESOURCE_EXHAUSTED'' \<or>
     getProp (getProp e ''error'') ''code'' = JNum 429"

datatype type_error = TypeError

definition isQuotaError :: "World \<Rightarrow> json \<Rightarrow> type_error + bool" where
  "isQuotaError w error =
     (if quotaSignature error then Inr True
      else if error = JNull then Inl TypeError
      else
        (case getProp error ''message'' of
           JStr message \<Rightarrow>
             if includes_str message ''429'' then
               (case JSON_parse w (substring message (indexOf message CHR ''{'')) of
                  None \<Rightarrow> Inr False
                | Some errorJson \<Rightarrow> Inr (quotaSignature errorJson))
             else Inr False
         | _ \<Rightarrow> Inr False))"

definition bankEffects :: "World \<Rightarrow> Generator \<Rightarrow> string + Question list \<Rightarrow> effect list \<Rightarrow> effect list" where
  \<comment> \<open>what both callers of \<open>generateFromBank\<close> do with its result\<close>
  "bankEffects w g result onSuccess =
     (case result of
        Inl err \<Rightarrow> [ShowToast (Literal err) Error]
      | Inr qs \<Rightarrow> SetGeneratedPaper (Some (createPaper w g qs Manual)) # onSuccess)"

text \<open>The \<open>catch (error)\<close> block of the AI path: its effects, and the \<open>TypeError\<close> if it throws.\<close>

definition catchAIError ::
  "World \<Rightarrow> Generator \<Rightarrow> (int \<times> int) list \<Rightarrow> json \<Rightarrow> effect list \<times> type_error option"
where
  "catchAIError w g distribution error =
     (case isQuotaError w error of
        Inl e \<Rightarrow> ([ConsoleError ''Error generating paper with AI:''], Some e)
      | Inr isQuota \<Rightarrow>
          ([ConsoleError ''Error generating paper with AI:'',
            ShowToast (Translated (if isQuota then ''apiQuotaError'' else ''apiError'')) Error,
            ShowToast (Translated ''fallbackToBank'') Success]
           @ bankEffects w g (generateFromBank w g distribution)
               [ShowToast (Translated ''fallbackSuccess'') Success],
           None))"

definition aiChaptersOf :: "Generator \<Rightarrow> string list" where
  "aiChaptersOf g = filter (\<lambda>c. c \<noteq> []) (map trim (split CHR '','' (aiChapter (settings g))))"

definition initialAIState :: "Generator \<Rightarrow> AIState" where
  "initialAIState g =
     \<lparr> finalQuestions = [],
       existingQuestionPool =
         filter (\<lambda>q. qclass q = selectedClass g \<and> (if avoidPrevious g then length (usedIn q) = 0 else True))
           (questions g),
       calls = 0, trace = [] \<rparr>"

definition aiBranch ::
  "World \<Rightarrow> Generator \<Rightarrow> (int \<times> int) list \<Rightarrow> effect list \<times> type_error option"
where
  "aiBranch w g distribution =
     (let aiChapters = aiChaptersOf g
      in if length aiChapters = 0
         then ([ShowToast (Literal ''Please provide at least one chapter for AI generation.'') Error], None)
         else
           (case generateGroups w g aiChapters distribution (initialAIState g) of
              (None, st) \<Rightarrow>
                (trace st @ [SetGeneratedPaper (Some (createPaper w g (finalQuestions st) Generated))], None)
            | (Some error, st) \<Rightarrow>
                (case catchAIError w g distribution error of
                   (effects, thrown) \<Rightarrow> (trace st @ effects, thrown))))"

section \<open>\<open>handleGenerate\<close>\<close>

text \<open>The distribution of the run, with the effects of computing it; \<open>None\<close> for the
  distribution is the early \<open>return\<close>.\<close>

definition computeDistribution ::
  "World \<Rightarrow> Generator \<Rightarrow> (effect list \<times> (int \<times> int) list option) option"
where
  "computeDistribution w g =
     (case generationMode (settings g) of
        DistributionMode \<Rightarrow> Some (explicitDistribution (markDistribution (settings g)))
      | TotalMarksMode \<Rightarrow>
          (case findDistribution (draws w) (s_totalMarks (settings g)) (s_allowedMarks (settings g)) of
             None \<Rightarrow> None
           | Some (effects, None) \<Rightarrow>
               Some (effects @ [ShowToast (Translated ''distributionGenerationFailed'') Error,
                                SetIsGenerating False], None)
           | Some (effects, Some distribution) \<Rightarrow> Some (effects, Some distribution)))"

definition handleGenerate :: "World \<Rightarrow> Generator \<Rightarrow> bool \<Rightarrow> effect list option" where
  "handleGenerate w g useAI =
     (case computeDistribution w g of
        None \<Rightarrow> None
      | Some (effects, None) \<Rightarrow>
          Some ([SetIsGenerating True, SetGeneratedPaper None] @ effects @ [SetIsGenerating False])
      | Some (effects, Some distribution) \<Rightarrow>
          Some ([SetIsGenerating True, SetGeneratedPaper None] @ effects @
                (if useAI then
                   (case aiBranch w g distribution of
                      (effects', None) \<Rightarrow> effects'
                    | (effects', Some TypeError) \<Rightarrow>
                        effects' @ [ConsoleError ''Error generating paper:'',
                                    ShowToast (Literal ''Paper generation failed. Check your settings.'') Error])
                 else bankEffects w g (generateFromBank w g distribution) [])
                @ [SetIsGenerating False]))"

section \<open>The same code with its arrays in a heap\<close>

text \<open>
  To see which array each step writes, the arrays of questions live in a heap: a reference is
  a natural number, \<open>fresh\<close> is the next reference to be given out. \<open>filter\<close>, \<open>slice\<close>, \<open>map\<close> and
  an array literal make a new array; \<open>sort\<close> and \<open>push\<close> write the array they are called on.
  The question objects are never assigned to, so they stay values. \<open>bank\<close> is the reference of
  the prop \<open>questions\<close>.
\<close>

type_synonym ref = nat

record Heap =
  arrays :: "ref \<Rightarrow> Question list"
  fresh :: ref

definition newArray :: "Question list \<Rightarrow> Heap \<Rightarrow> ref \<times> Heap" where
  "newArray xs h = (fresh h, h \<lparr> arrays := (arrays h)(fresh h := xs), fresh := Suc (fresh h) \<rparr>)"

definition array_filter :: "(Question \<Rightarrow> bool) \<Rightarrow> ref \<Rightarrow> Heap \<Rightarrow> ref \<times> Heap" where
  "array_filter P r h = newArray (filter P (arrays h r)) h"

definition array_slice0 :: "int \<Rightarrow> ref \<Rightarrow> Heap \<Rightarrow> ref \<times> Heap" where
  "array_slice0 end r h = newArray (slice0 end (arrays h r)) h"

definition array_sort :: "(Question list \<Rightarrow> Question list) \<Rightarrow> ref \<Rightarrow> Heap \<Rightarrow> Heap" where
  "array_sort sh r h = h \<lparr> arrays := (arrays h)(r := sh (arrays h r)) \<rparr>"

definition array_push :: "ref \<Rightarrow> Question list \<Rightarrow> Heap \<Rightarrow> Heap" where
  "array_push r xs h = h \<lparr> arrays := (arrays h)(r := arrays h r @ xs) \<rparr>"

fun missingLoop :: "ref \<Rightarrow> (int, int) jsmap \<Rightarrow> string list \<Rightarrow> Heap \<Rightarrow> string list \<times> Heap" where
  "missingLoop sourcePool [] mm h = (mm, h)"
| "missingLoop sourcePool ((marks, requiredCount) # rc) mm h =
     (case array_filter (\<lambda>q. qmarks q = marks) sourcePool h of
        (matching, h1) \<Rightarrow>
          (let availableCount = int (length (arrays h1 matching))
           in missingLoop sourcePool rc
                (if availableCount < requiredCount
                 then mm @ [missingMessage requiredCount marks availableCount] else mm)
                h1))"

fun selectLoop ::
  "(nat \<Rightarrow> Question list \<Rightarrow> Question list) \<Rightarrow> nat \<Rightarrow> (int \<times> int) list \<Rightarrow> ref \<Rightarrow> ref \<Rightarrow> Heap \<Rightarrow> Heap"
where
  "selectLoop sh k [] sourcePool finalRef h = h"
| "selectLoop sh k ((cnt, marks) # rest) sourcePool finalRef h =
     (case array_filter (\<lambda>q. qmarks q = marks) sourcePool h of
        (suitableQuestions, h1) \<Rightarrow>
          (case array_slice0 cnt suitableQuestions (array_sort (sh k) suitableQuestions h1) of
             (selected, h2) \<Rightarrow>
               (let h3 = array_push finalRef (arrays h2 selected) h2
                in case array_filter (\<lambda>q. \<not> list_ex (\<lambda>s. qid s = qid q) (arrays h3 selected))
                          sourcePool h3 of
                     (sourcePool', h4) \<Rightarrow> selectLoop sh (Suc k) rest sourcePool' finalRef h4)))"

definition generateFromBank_heap ::
  "World \<Rightarrow> Generator \<Rightarrow> ref \<Rightarrow> (int \<times> int) list \<Rightarrow> Heap \<Rightarrow> (string + ref) \<times> Heap"
where
  "generateFromBank_heap w g bank distribution h =
     (case array_filter (\<lambda>q. qclass q = selectedClass g) bank h of
        (ofClass, h1) \<Rightarrow>
          (case (if avoidPrevious g then array_filter (\<lambda>q. length (usedIn q) = 0) ofClass h1
                 else (ofClass, h1)) of
             (sourcePool, h2) \<Rightarrow>
               (case missingLoop sourcePool (requiredCounts distribution) [] h2 of
                  (mm, h3) \<Rightarrow>
                    if length mm > 0
                    then (Inl (''Not enough questions in bank: '' @ join ''; '' mm @ ''.''), h3)
                    else
                      (case newArray [] h3 of
                         (finalRef, h4) \<Rightarrow>
                           (Inr finalRef,
                            selectLoop (shuffle w) 0 distribution sourcePool finalRef h4)))))"

fun makeRequests_heap ::
  "World \<Rightarrow> Generator \<Rightarrow> string list \<Rightarrow> int \<Rightarrow> (int \<times> string) list \<Rightarrow> ref \<Rightarrow> ref \<Rightarrow> nat \<Rightarrow> Heap \<Rightarrow>
     json option \<times> nat \<times> Heap"
where
  "makeRequests_heap w g aiChapters marks [] finalRef poolRef k h = (None, k, h)"
| "makeRequests_heap w g aiChapters marks ((cnt, qtype) # rest) finalRef poolRef k h =
     (let chapterForThisGroup = chapterFor w aiChapters k;
          criteria = requestCriteria g chapterForThisGroup marks cnt qtype
      in case generateQuestionsAI w k criteria (arrays h poolRef) (userApiKey g) of
           Inl error \<Rightarrow> (Some error, Suc k, h)
         | Inr generatedBatch \<Rightarrow>
             makeRequests_heap w g aiChapters marks rest finalRef poolRef (Suc k)
               (if length generatedBatch > 0
                then (case newArray (newQuestions w g k chapterForThisGroup marks generatedBatch) h of
                        (new, h1) \<Rightarrow>
                          (let h2 = array_push finalRef (arrays h1 new) h1
                           in array_push poolRef (arrays h2 new) h2))
                else h))"

fun generateGroups_heap ::
  "World \<Rightarrow> Generator \<Rightarrow> string list \<Rightarrow> (int \<times> int) list \<Rightarrow> ref \<Rightarrow> ref \<Rightarrow> nat \<Rightarrow> Heap \<Rightarrow>
     json option \<times> nat \<times> Heap"
where
  "generateGroups_heap w g aiChapters [] finalRef poolRef k h = (None, k, h)"
| "generateGroups_heap w g aiChapters ((cnt, marks) # rest) finalRef poolRef k h =
     (if cnt \<le> 0 then generateGroups_heap w g aiChapters rest finalRef poolRef k h
      else
        (case makeRequests_heap w g aiChapters marks (requestsToMake cnt (aiQuestionType (settings g)))
                finalRef poolRef k h of
           (Some error, k', h') \<Rightarrow> (Some error, k', h')
         | (None, k', h') \<Rightarrow>
             generateGroups_heap w g aiChapters rest finalRef poolRef k' h'))"

definition aiBranch_heap :: "World \<Rightarrow> Generator \<Rightarrow> ref \<Rightarrow> (int \<times> int) list \<Rightarrow> Heap \<Rightarrow> Heap" where
  "aiBranch_heap w g bank distribution h =
     (let aiChapters = aiChaptersOf g
      in if length aiChapters = 0 then h
         else
           (case array_filter
                   (\<lambda>q. qclass q = selectedClass g \<and>
                        (if avoidPrevious g then length (usedIn q) = 0 else True)) bank h of
              (poolRef, h1) \<Rightarrow>
                (case newArray [] h1 of
                   (finalRef, h2) \<Rightarrow>
                     (case generateGroups_heap w g aiChapters distribution finalRef
                             poolRef 0 h2 of
                        (None, k, h3) \<Rightarrow> h3
                      | (Some error, k, h3) \<Rightarrow>
                          (case isQuotaError w error of
                             Inl e \<Rightarrow> h3
                           | Inr isQuota \<Rightarrow> snd (generateFromBank_heap w g bank distribution h3))))))"

text \<open>Every array that existed in \<open>h0\<close> has in \<open>h\<close> the content it had in \<open>h0\<close>.\<close>

definition frame :: "Heap \<Rightarrow> Heap \<Rightarrow> bool" where
  "frame h0 h \<longleftrightarrow> fresh h0 \<le> fresh h \<and> (\<forall>r<fresh h0. arrays h r = arrays h0 r)"

text \<open>The accumulators of the AI path in the heap are those of the state on lists.\<close>

definition sameAccumulators :: "Heap \<Rightarrow> ref \<Rightarrow> ref \<Rightarrow> nat \<Rightarrow> AIState \<Rightarrow> bool" where
  "sameAccumulators h finalRef poolRef k st \<longleftrightarrow>
     finalRef < fresh h \<and> poolRef < fresh h \<and> finalRef \<noteq> poolRef \<and>
     arrays h finalRef = finalQuestions st \<and> arrays h poolRef = existingQuestionPool st \<and>
     calls st = k"

definition exampleHeap :: "Question list \<Rightarrow> Heap" where
  "exampleHeap bank = \<lparr> arrays = (\<lambda>r. if r = 0 then bank else []), fresh = 1 \<rparr>"

section \<open>Notions used in the statements\<close>

subsection \<open>Reachability, stated without the table\<close>

text \<open>A total is reachable when it is a sum of allowed marks, each used any number of times.\<close>

inductive reach :: "int list \<Rightarrow> int \<Rightarrow> bool" for marks where
  reach_0: "reach marks 0"
| reach_add: "reach marks s \<Longrightarrow> m \<in> set marks \<Longrightarrow> reach marks (s + m)"


text \<open>The table is right up to index \<open>i\<close> and still \<open>false\<close> above it.\<close>

definition dpOk :: "int list \<Rightarrow> nat \<Rightarrow> nat \<Rightarrow> bool list \<Rightarrow> bool" where
  "dpOk marks T i dp \<longleftrightarrow>
     length dp = Suc T \<and> (\<forall>s\<le>i. dp ! s = reach marks (int s)) \<and> (\<forall>s. i < s \<longrightarrow> s \<le> T \<longrightarrow> \<not> dp ! s)"


text \<open>The marks a counted map stands for: the sum of \<open>count * mark\<close> over its entries.\<close>

definition weight :: "(int, int) jsmap \<Rightarrow> int" where
  "weight m = (\<Sum>(mark, count)\<leftarrow>m. count * mark)"


subsection \<open>What a distribution asks for and what the bank offers\<close>




subsection \<open>Concrete inputs\<close>

definition exampleQuestion :: "string \<Rightarrow> int \<Rightarrow> int \<Rightarrow> bool \<Rightarrow> Question" where
  "exampleQuestion i cls m used =
     \<lparr> qid = i, user_id = None, qclass = cls, qchapter = ''Cell'', qtext = ''What is a cell?'',
       answer = None, qmarks = m, difficulty = Moderate,
       usedIn = (if used then [\<lparr> u_year = 2024, u_semester = First, paperId = ''p1'' \<rparr>] else []),
       qsource = Manual, qyear = 2025, qsemester = First, tags = [], imageDataURL = None \<rparr>"

definition exampleSettings :: "string list \<Rightarrow> GeneratorSettings" where
  "exampleSettings types =
     \<lparr> markDistribution = ''5x1, 5x2, 2x5'', aiChapter = ''Cell'', aiDifficulty = Moderate,
       aiKeywords = [], aiQuestionType = types, aiGenerateAnswers = False,
       wbbseSyllabusOnly = True, generationMode = DistributionMode, s_totalMarks = ''25'',
       s_allowedMarks = ''1, 2, 3, 5'' \<rparr>"

definition exampleGenerator :: "Question list \<Rightarrow> string list \<Rightarrow> Generator" where
  "exampleGenerator bank types =
     \<lparr> questions = bank, lang = en, userApiKey = Some ''key'', title = ''Unit test'', year = 2025,
       selectedClass = 10, semester = First, avoidPrevious = True,
       settings = exampleSettings types \<rparr>"

text \<open>A world whose shuffle reverses the array and whose service answers by a given table.\<close>

definition exampleWorld :: "(nat \<Rightarrow> json + Generated list) \<Rightarrow> World" where
  "exampleWorld answers =
     \<lparr> draws = (\<lambda>k. 0), shuffle = (\<lambda>k xs. rev xs), chapterDraw = (\<lambda>k. 0),
       newId = (\<lambda>k j. ''gen-'' @ showNat k @ ''-'' @ showNat j), now = ''2025-01-01T00:00:00.000Z'',
       generateQuestionsAI = (\<lambda>k criteria pool key. answers k), JSON_parse = (\<lambda>s. None) \<rparr>"

subsection \<open>Reading a trace of effects\<close>

text \<open>A request, and a request that gave at least one question.\<close>

definition isRequest :: "effect \<Rightarrow> bool" where
  "isRequest e = (case e of Request criteria outcome \<Rightarrow> True | _ \<Rightarrow> False)"

definition productive :: "effect \<Rightarrow> bool" where
  "productive e = (case e of Request criteria (Inr batch) \<Rightarrow> batch \<noteq> [] | _ \<Rightarrow> False)"

text \<open>A trace keeps the delay discipline, read from left to right: at every request, the
  effect just before it is the delay exactly when an earlier request was productive.
  \<open>produced\<close> and \<open>afterDelay\<close> say what came before the trace.\<close>

fun disciplined :: "bool \<Rightarrow> bool \<Rightarrow> effect list \<Rightarrow> bool" where
  "disciplined produced afterDelay [] = True"
| "disciplined produced afterDelay (e # es) =
     ((isRequest e \<longrightarrow> afterDelay = produced) \<and>
      disciplined (produced \<or> productive e) (e = Delay 1500) es)"

text \<open>The invariant of the two loops of the AI path, for the effects \<open>pre\<close> before them.\<close>

definition traceOk :: "effect list \<Rightarrow> AIState \<Rightarrow> bool" where
  "traceOk pre st \<longleftrightarrow>
     disciplined False False (pre @ trace st) \<and>
     (pre @ trace st \<noteq> [] \<longrightarrow> last (pre @ trace st) \<noteq> Delay 1500) \<and>
     (0 < length (finalQuestions st) \<longleftrightarrow> list_ex productive (pre @ trace st))"

text \<open>More concrete inputs: a generator with a given explicit distribution, the criteria of its
  requests, and one generated question.\<close>

definition exampleGeneratorFor :: "string \<Rightarrow> Question list \<Rightarrow> string list \<Rightarrow> Generator" where
  "exampleGeneratorFor md bank types =
     (exampleGenerator bank types) \<lparr> settings := (exampleSettings types) \<lparr> markDistribution := md \<rparr> \<rparr>"

definition exampleCriteria :: "int \<Rightarrow> int \<Rightarrow> string \<Rightarrow> Criteria" where
  "exampleCriteria cnt m qtype =
     \<lparr> c_class = 10, c_chapter = ''Cell'', c_marks = m, c_difficulty = Moderate, c_count = cnt,
       c_questionType = qtype, c_keywords = [], c_generateAnswer = False,
       c_wbbseSyllabusOnly = True, c_lang = en \<rparr>"

definition exampleGenerated :: Generated where
  "exampleGenerated = \<lparr> g_text = ''Name one organelle.'', g_answer = None, g_imageDataURL = None \<rparr>"

text \<open>Two runs of two requests: the first batch empty, and the second batch empty.\<close>

definition quietRun :: "effect list" where
  "quietRun =
     [SetIsGenerating True, SetGeneratedPaper None,
      Request (exampleCriteria 1 5 ''Short Answer'') (Inr []),
      Request (exampleCriteria 1 5 ''True/False'') (Inr [exampleGenerated]),
      SetGeneratedPaper (Some
        \<lparr> p_id = ''2025-01-01T00:00:00.000Z'', p_title = ''Unit test'', p_year = 2025, p_class = 10,
          p_semester = First, p_source = Generated,
          p_questions = [(exampleQuestion ''gen-1-0'' 10 5 False)
                           \<lparr> qtext := ''Name one organelle.'', qsource := Generated \<rparr>],
          p_createdAt = ''2025-01-01T00:00:00.000Z'' \<rparr>),
      SetIsGenerating False]"

definition delayedRun :: "effect list" where
  "delayedRun =
     [SetIsGenerating True, SetGeneratedPaper None,
      Request (exampleCriteria 1 5 ''Short Answer'') (Inr [exampleGenerated]),
      Delay 1500,
      Request (exampleCriteria 1 5 ''True/False'') (Inr []),
      SetGeneratedPaper (Some
        \<lparr> p_id = ''2025-01-01T00:00:00.000Z'', p_title = ''Unit test'', p_year = 2025, p_class = 10,
          p_semester = First, p_source = Generated,
          p_questions = [(exampleQuestion ''gen-0-0'' 10 5 False)
                           \<lparr> qtext := ''Name one organelle.'', qsource := Generated \<rparr>],
          p_createdAt = ''2025-01-01T00:00:00.000Z'' \<rparr>),
      SetIsGenerating False]"




section \<open>Properties of the solver\<close>

lemma set_foldl_set_add: "set (foldl set_add acc xs) = set acc \<union> set xs"
  by (induction xs arbitrary: acc) (auto simp: set_add_def)

lemma set_newSet: "set (newSet xs) = set xs"
  by (simp add: newSet_def set_foldl_set_add)

lemma parseAllowedMarks_pos: "m \<in> set (parseAllowedMarks s) \<Longrightarrow> 0 < m"
  by (auto simp: parseAllowedMarks_def set_newSet)

lemma dpMarks_eq:
  "dpMarks marks i dp =
     (if \<exists>m\<in>set marks. m \<le> i \<and> dpGet dp (i - m) then dp[nat i := True] else dp)"
  by (induction marks) auto

lemma reach_nonneg: "reach marks s \<Longrightarrow> \<forall>m\<in>set marks. 0 < m \<Longrightarrow> 0 \<le> s"
  by (induction rule: reach.induct) auto


lemma reach_step:
  assumes "reach marks s" "0 < s"
  shows "\<exists>m\<in>set marks. reach marks (s - m)"
  using assms(1)
proof (cases rule: reach.cases)
  case reach_0
  then show ?thesis using assms(2) by simp
next
  case (reach_add s' m)
  then show ?thesis by (intro bexI[of _ m]) auto
qed

lemma dpOk_step:
  assumes ok: "dpOk marks T i dp" and pos: "\<forall>m\<in>set marks. 0 < m" and lt: "i < T"
  shows "dpOk marks T (Suc i) (dpMarks marks (int (Suc i)) dp)"
proof -
  have len: "length dp = Suc T" and old: "\<And>s. s \<le> i \<Longrightarrow> dp ! s = reach marks (int s)"
    and new: "\<And>s. i < s \<Longrightarrow> s \<le> T \<Longrightarrow> \<not> dp ! s"
    using ok by (auto simp: dpOk_def)
  have key: "(\<exists>m\<in>set marks. m \<le> int (Suc i) \<and> dpGet dp (int (Suc i) - m)) = reach marks (int (Suc i))"
  proof
    assume "\<exists>m\<in>set marks. m \<le> int (Suc i) \<and> dpGet dp (int (Suc i) - m)"
    then obtain m where m: "m \<in> set marks" "m \<le> int (Suc i)" "dpGet dp (int (Suc i) - m)" by blast
    have "0 < m" using pos m by blast
    then have "nat (int (Suc i) - m) \<le> i" using m by linarith
    moreover have "dp ! nat (int (Suc i) - m)" using m(3) by (simp add: dpGet_def split: if_splits)
    ultimately have "reach marks (int (nat (int (Suc i) - m)))" using old by blast
    then have "reach marks (int (Suc i) - m)" using m(2) by simp
    then have "reach marks (int (Suc i) - m + m)" using m(1) by (rule reach_add)
    then show "reach marks (int (Suc i))" by simp
  next
    assume r: "reach marks (int (Suc i))"
    then obtain m where m: "m \<in> set marks" "reach marks (int (Suc i) - m)"
      using reach_step[of marks "int (Suc i)"] by auto
    have "0 < m" using pos m by blast
    have "0 \<le> int (Suc i) - m" using reach_nonneg[OF m(2) pos] .
    then have le: "nat (int (Suc i) - m) \<le> i" and eq: "int (nat (int (Suc i) - m)) = int (Suc i) - m"
      using \<open>0 < m\<close> by linarith+
    have "dp ! nat (int (Suc i) - m)" using old[OF le] m(2) eq by simp
    then have "dpGet dp (int (Suc i) - m)"
      using le lt len \<open>0 \<le> int (Suc i) - m\<close> by (simp add: dpGet_def)
    then show "\<exists>m\<in>set marks. m \<le> int (Suc i) \<and> dpGet dp (int (Suc i) - m)"
      using m(1) \<open>0 \<le> int (Suc i) - m\<close> by (intro bexI[of _ m]) auto
  qed
  have eq: "dpMarks marks (int (Suc i)) dp =
      (if reach marks (int (Suc i)) then dp[Suc i := True] else dp)"
    by (simp only: dpMarks_eq key nat_int)
  show ?thesis
  proof (cases "reach marks (int (Suc i))")
    case True
    show ?thesis unfolding eq dpOk_def using len old new lt True
      by (auto simp: nth_list_update le_Suc_eq simp del: of_nat_Suc)
  next
    case False
    show ?thesis unfolding eq dpOk_def using len old new lt False
      by (auto simp: le_Suc_eq simp del: of_nat_Suc)
  qed
qed

lemma dpOk_fold:
  assumes pos: "\<forall>m\<in>set marks. 0 < m"
  shows "n \<le> T \<Longrightarrow>
     dpOk marks T n (fold (\<lambda>i dp. dpMarks marks (int i) dp) [1 ..< n + 1]
                      ((replicate (Suc T) False)[0 := True]))"
proof (induction n)
  case 0
  show ?case by (auto simp: dpOk_def nth_list_update intro: reach_0)
next
  case (Suc n)
  then have "dpOk marks T n (fold (\<lambda>i dp. dpMarks marks (int i) dp) [1 ..< n + 1]
                      ((replicate (Suc T) False)[0 := True]))" and "n < T" by auto
  from dpOk_step[OF this(1) pos this(2)] show ?case by simp
qed

lemma buildDp_reach:
  assumes pos: "\<forall>m\<in>set marks. 0 < m" and "0 \<le> target" "0 \<le> s" "s \<le> target"
  shows "dpGet (buildDp target marks) s = reach marks s"
proof -
  have "nat (target + 1) = Suc (nat target)" using assms by simp
  then have "dpOk marks (nat target) (nat target) (buildDp target marks)"
    using dpOk_fold[OF pos, of "nat target" "nat target"] by (simp add: buildDp_def)
  then show ?thesis using assms by (auto simp: dpOk_def dpGet_def)
qed


lemma drawMarks_total:
  assumes pos: "\<forall>m\<in>set marks. 0 < m"
    and step: "\<And>s. 0 < s \<Longrightarrow> s \<le> target \<Longrightarrow> dpGet dp s \<Longrightarrow> \<exists>m\<in>set marks. m \<le> s \<and> dpGet dp (s - m)"
  shows "c \<le> target \<Longrightarrow> dpGet dp c \<Longrightarrow>
     \<exists>rm. drawMarks rnd marks dp c acc = Some (Inr (acc @ rm)) \<and> sum_list rm = c \<and> set rm \<subseteq> set marks"
proof (induction "nat c" arbitrary: c acc rule: less_induct)
  case less
  show ?case
  proof (cases "0 < c")
    case False
    have "0 \<le> c" using less.prems(2) by (simp add: dpGet_def split: if_splits)
    then have "c = 0" using False by simp
    then show ?thesis by (subst drawMarks.simps) simp
  next
    case True
    define moves where "moves = filter (\<lambda>mark. c \<ge> mark \<and> dpGet dp (c - mark)) marks"
    have ne: "moves \<noteq> []"
      using step[OF True less.prems] by (auto simp: moves_def filter_empty_conv)
    define mv where "mv = moves ! (rnd (length acc) mod length moves)"
    have "mv \<in> set moves" unfolding mv_def using ne by (intro nth_mem) simp
    then have mv: "mv \<in> set marks" "mv \<le> c" "dpGet dp (c - mv)" by (auto simp: moves_def)
    have "0 < mv" using pos mv(1) by blast
    then have "nat (c - mv) < nat c" "c - mv \<le> target" using True less.prems(1) by linarith+
    from less.hyps[OF this(1) this(2) mv(3), of "acc @ [mv]"]
    obtain rm where rm: "drawMarks rnd marks dp (c - mv) (acc @ [mv]) = Some (Inr ((acc @ [mv]) @ rm))"
      "sum_list rm = c - mv" "set rm \<subseteq> set marks" by blast
    have "drawMarks rnd marks dp c acc = drawMarks rnd marks dp (c - mv) (acc @ [mv])"
      using True ne by (subst drawMarks.simps) (simp add: moves_def[symmetric] mv_def[symmetric] Let_def)
    then have "drawMarks rnd marks dp c acc = Some (Inr (acc @ (mv # rm)))" using rm(1) by simp
    moreover have "sum_list (mv # rm) = c" using rm(2) by simp
    moreover have "set (mv # rm) \<subseteq> set marks" using rm(3) mv(1) by simp
    ultimately show ?thesis by blast
  qed
qed

lemma weight_map_set: "weight (map_set m k (map_get_or0 m k + 1)) = weight m + k"
  by (induction m) (auto simp: weight_def map_get_or0_def algebra_simps)

lemma weight_foldl:
  "weight (foldl (\<lambda>dm mark. map_set dm mark (map_get_or0 dm mark + 1)) m rm) = weight m + sum_list rm"
  by (induction rm arbitrary: m) (simp_all add: weight_map_set)

lemma countMarks_sum:
  "(\<Sum>(count, mark)\<leftarrow>map (\<lambda>(mark, count). (count, mark)) (countMarks rm). count * mark) = sum_list rm"
proof -
  have "(\<Sum>(count, mark)\<leftarrow>map (\<lambda>(mark, count). (count, mark)) m. count * mark) = weight m" for m
    by (induction m) (auto simp: weight_def)
  then show ?thesis using weight_foldl[of "[]" rm] by (simp add: countMarks_def weight_def)
qed

lemma drawMarks_buildDp:
  assumes pos: "\<forall>m\<in>set marks. 0 < m" and t: "0 < target" and r: "reach marks target"
  shows "\<exists>rm. drawMarks rnd marks (buildDp target marks) target [] = Some (Inr rm) \<and>
               sum_list rm = target \<and> set rm \<subseteq> set marks"
proof -
  have step: "\<exists>m\<in>set marks. m \<le> s \<and> dpGet (buildDp target marks) (s - m)"
    if s: "0 < s" "s \<le> target" "dpGet (buildDp target marks) s" for s
  proof -
    have "reach marks s" using buildDp_reach[OF pos, of target s] s t by simp
    then obtain m where m: "m \<in> set marks" "reach marks (s - m)" using reach_step s(1) by blast
    have "0 \<le> s - m" using reach_nonneg[OF m(2) pos] .
    moreover have "0 < m" using pos m(1) by blast
    ultimately have "dpGet (buildDp target marks) (s - m)"
      using buildDp_reach[OF pos, of target "s - m"] s t m(2) by simp
    then show ?thesis using m(1) \<open>0 \<le> s - m\<close> by (intro bexI[of _ m]) auto
  qed
  have "dpGet (buildDp target marks) target" using buildDp_reach[OF pos, of target target] t r by simp
  from drawMarks_total[OF pos step order_refl this, of rnd "[]"] show ?thesis by auto
qed

lemma findDistribution_cases:
  fixes rnd totalMarks allowedMarks
  defines "marks \<equiv> parseAllowedMarks allowedMarks"
  shows "findDistribution rnd totalMarks allowedMarks =
     (case parseInt totalMarks of
        None \<Rightarrow> Some ([invalidToast], None)
      | Some target \<Rightarrow>
          if target \<le> 0 \<or> marks = [] then Some ([invalidToast], None)
          else if \<not> reach marks target then Some ([], None)
          else Some ([], Some (map (\<lambda>(mark, count). (count, mark))
                 (countMarks (projr (the (drawMarks rnd marks (buildDp target marks) target [])))))))"
proof -
  have pos: "\<forall>m\<in>set marks. 0 < m" by (simp add: marks_def parseAllowedMarks_pos)
  show ?thesis
  proof (cases "parseInt totalMarks")
    case None
    then show ?thesis by (simp add: findDistribution_def isNaN_def)
  next
    case (Some target)
    show ?thesis
    proof (cases "target \<le> 0 \<or> marks = []")
      case True
      then show ?thesis using Some by (auto simp: findDistribution_def isNaN_def marks_def)
    next
      case False
      then have t: "0 < target" by simp
      have dp: "dpGet (buildDp target marks) target = reach marks target"
        using buildDp_reach[OF pos, of target target] t by simp
      show ?thesis
      proof (cases "reach marks target")
        case r: False
        then show ?thesis using Some False dp
          by (simp add: findDistribution_def isNaN_def marks_def[symmetric] Let_def)
      next
        case r: True
        from drawMarks_buildDp[OF pos t r] obtain rm where
          rm: "drawMarks rnd marks (buildDp target marks) target [] = Some (Inr rm)"
          by blast
        then show ?thesis using Some False dp r
          by (simp add: findDistribution_def isNaN_def marks_def[symmetric] Let_def)
      qed
    qed
  qed
qed

text \<open>
  Claim C1 (solver feasibility soundness). Whenever \<open>findDistribution\<close> returns a sequence of
  \<open>(count, markValue)\<close> pairs, the total read from the settings is a positive integer and the
  sum of \<open>count * markValue\<close> over the returned pairs equals it exactly.
\<close>

theorem findDistribution_sound:
  assumes "findDistribution rnd totalMarks allowedMarks = Some (effects, Some distribution)"
  shows "\<exists>target. parseInt totalMarks = Some target \<and> 0 < target \<and>
           (\<Sum>(count, markValue)\<leftarrow>distribution. count * markValue) = target"
proof -
  define marks where "marks = parseAllowedMarks allowedMarks"
  have pos: "\<forall>m\<in>set marks. 0 < m" by (simp add: marks_def parseAllowedMarks_pos)
  from assms obtain target where t: "parseInt totalMarks = Some target"
    by (cases "parseInt totalMarks") (auto simp: findDistribution_cases)
  from assms t have c: "0 < target" "reach marks target"
    and d: "distribution = map (\<lambda>(mark, count). (count, mark))
                 (countMarks (projr (the (drawMarks rnd marks (buildDp target marks) target []))))"
    by (auto simp: findDistribution_cases marks_def split: if_splits)
  from drawMarks_buildDp[OF pos c] obtain rm where
    "drawMarks rnd marks (buildDp target marks) target [] = Some (Inr rm)" "sum_list rm = target"
    by blast
  then have rm: "distribution = map (\<lambda>(mark, count). (count, mark)) (countMarks rm)"
    and s: "sum_list rm = target" using d by simp_all
  have "(\<Sum>(count, markValue)\<leftarrow>distribution. count * markValue) = sum_list rm"
    unfolding rm by (rule countMarks_sum)
  then show ?thesis using t c s by simp
qed

theorem findDistribution_sound_witness:
  "findDistribution (\<lambda>k. k) ''10'' ''1,2,5'' = Some ([], Some [(1, 1), (2, 2), (1, 5)]) \<and>
   (\<exists>target. parseInt ''10'' = Some target \<and> 0 < target \<and>
      (\<Sum>(count, markValue)\<leftarrow>[(1, 1), (2, 2), (1, 5)]. count * markValue) = target)"
proof -
  have h: "findDistribution (\<lambda>k. k) ''10'' ''1,2,5'' = Some ([], Some [(1, 1), (2, 2), (1, 5)])"
    by code_simp
  show ?thesis using h findDistribution_sound[OF h] by simp
qed




section \<open>Properties of the parsers and of the partition\<close>

lemma parseDistribution_segments:
  "map (\<lambda>parts. (the (parts ! 0), the (parts ! 1)))
       (filter (\<lambda>parts. length parts = 2 \<and> \<not> isNaN (parts ! 0) \<and> \<not> isNaN (parts ! 1))
          (map (\<lambda>s. map parseInt (split CHR ''x'' (trim s))) segs))
   = List.map_filter segmentPair segs"
proof (induction segs)
  case Nil
  show ?case by (simp add: List.map_filter_simps)
next
  case (Cons seg segs)
  show ?case
  proof (cases "split CHR ''x'' (trim seg)")
    case Nil
    then show ?thesis using Cons by (simp add: List.map_filter_simps segmentPair_def)
  next
    case (Cons p ps)
    note c1 = this
    show ?thesis
    proof (cases ps)
      case Nil
      then show ?thesis using Cons.IH c1 by (simp add: List.map_filter_simps segmentPair_def)
    next
      case (Cons q qs)
      then show ?thesis using Cons.IH c1
        by (cases qs) (auto simp: List.map_filter_simps segmentPair_def isNaN_def split: option.splits)
    qed
  qed
qed

text \<open>
  Claim C10 (the explicit distribution is parsed leniently). The parser keeps exactly the
  comma-separated segments that, trimmed and split on \<open>x\<close>, have two parts that both parse as
  integers, in their order, and drops every other segment without a message. No sign is
  checked: zero and negative counts and mark values are kept. The format toast is shown
  exactly when nothing is kept and the trimmed input is not empty;
  \<open>2x5,garbage,3x-1\<close> gives \<open>[(2, 5), (3, -1)]\<close>.
\<close>

theorem parseDistribution_lenient:
  "parseDistribution md = List.map_filter segmentPair (split CHR '','' md)
   \<and> explicitDistribution md =
          (if List.map_filter segmentPair (split CHR '','' md) = [] \<and> trim md \<noteq> []
           then ([formatToast, SetIsGenerating False], None)
           else ([], Some (List.map_filter segmentPair (split CHR '','' md))))
   \<and> explicitDistribution ''2x5,garbage,3x-1'' = ([], Some [(2, 5), (3, - 1)])
   \<and> explicitDistribution ''0x5, -2x0'' = ([], Some [(0, 5), (- 2, 0)])
   \<and> explicitDistribution ''garbage'' = ([formatToast, SetIsGenerating False], None)
   \<and> explicitDistribution ''  '' = ([], Some [])"
proof -
  have a: "parseDistribution md = List.map_filter segmentPair (split CHR '','' md)" for md
    unfolding parseDistribution_def by (rule parseDistribution_segments)
  have b: "explicitDistribution ''2x5,garbage,3x-1'' = ([], Some [(2, 5), (3, - 1)])" by code_simp
  have c: "explicitDistribution ''0x5, -2x0'' = ([], Some [(0, 5), (- 2, 0)])" by code_simp
  have d: "explicitDistribution ''garbage'' = ([formatToast, SetIsGenerating False], None)" by code_simp
  have e: "explicitDistribution ''  '' = ([], Some [])" by code_simp
  have f: "explicitDistribution md =
          (if List.map_filter segmentPair (split CHR '','' md) = [] \<and> trim md \<noteq> []
           then ([formatToast, SetIsGenerating False], None)
           else ([], Some (List.map_filter segmentPair (split CHR '','' md))))"
    by (simp add: explicitDistribution_def a Let_def)
  show ?thesis using a b c d e f by blast
qed

lemma newSet_Nil: "newSet xs = [] \<longleftrightarrow> xs = []"
  using set_newSet[of xs] by (metis set_empty)

text \<open>
  Claim C8, as amended. \<open>findDistribution\<close> shows the invalid-input toast and returns \<open>null\<close>
  exactly when the total does not parse to a positive integer or no allowed entry parses to
  a positive integer. Allowed entries that are not positive or do not parse are dropped and
  the solver goes on with the others. In every other case the solver shows no toast of its
  own, so the infeasible outcome (\<open>null\<close>, no effect) differs from the invalid-input one.
\<close>

theorem findDistribution_invalid:
  fixes rnd totalMarks allowedMarks
  defines "malformed \<equiv>
     (case parseInt totalMarks of None \<Rightarrow> True | Some target \<Rightarrow> target \<le> 0) \<or>
     (\<forall>s\<in>set (split CHR '','' allowedMarks).
        case parseInt (trim s) of None \<Rightarrow> True | Some m \<Rightarrow> m \<le> 0)"
  shows "(malformed \<longrightarrow> findDistribution rnd totalMarks allowedMarks = Some ([invalidToast], None)) \<and>
         (\<not> malformed \<longrightarrow> (\<exists>result. findDistribution rnd totalMarks allowedMarks = Some ([], result)))"
proof -
  have "parseAllowedMarks allowedMarks = [] \<longleftrightarrow>
     (\<forall>s\<in>set (split CHR '','' allowedMarks).
        case parseInt (trim s) of None \<Rightarrow> True | Some m \<Rightarrow> m \<le> 0)"
    by (auto simp: parseAllowedMarks_def newSet_Nil filter_empty_conv isNaN_def split: option.splits)
  then show ?thesis
    unfolding malformed_def by (auto simp: findDistribution_cases split: option.splits)
qed

theorem findDistribution_invalid_witness:
  "findDistribution (\<lambda>k. 0) ''5'' ''0, -3, x'' = Some ([invalidToast], None) \<and>
   (\<exists>result. findDistribution (\<lambda>k. 0) ''3'' ''2'' = Some ([], result))"
proof -
  have a: "(case parseInt ''5'' of None \<Rightarrow> True | Some target \<Rightarrow> target \<le> 0) \<or>
     (\<forall>s\<in>set (split CHR '','' ''0, -3, x'').
        case parseInt (trim s) of None \<Rightarrow> True | Some m \<Rightarrow> m \<le> 0)" by code_simp
  have b: "\<not> ((case parseInt ''3'' of None \<Rightarrow> True | Some target \<Rightarrow> target \<le> 0) \<or>
     (\<forall>s\<in>set (split CHR '','' ''2'').
        case parseInt (trim s) of None \<Rightarrow> True | Some m \<Rightarrow> m \<le> 0))" by code_simp
  show ?thesis
    using a b findDistribution_invalid[of "''5''" "''0, -3, x''" "\<lambda>k. 0"]
      findDistribution_invalid[of "''3''" "''2''" "\<lambda>k. 0"] by blast
qed

text \<open>
  Claim C8 as stated fails: with the allowed marks \<open>0,5\<close> one allowed value is not positive,
  and the solver still returns a distribution for the total 5.
\<close>

theorem findDistribution_malformed_counterexample:
  "map (\<lambda>s. parseInt (trim s)) (split CHR '','' ''0,5'') = [Some 0, Some 5] \<and>
   findDistribution (\<lambda>k. 0) ''5'' ''0,5'' = Some ([], Some [(1, 5)])"
  by code_simp









section \<open>Properties of the sampling from the bank\<close>






lemma missingMessages_foldl:
  "foldl (\<lambda>mm (marks, requiredCount).
              (let availableCount = int (length (filter (\<lambda>q. qmarks q = marks) pool))
               in if availableCount < requiredCount
                  then mm @ [missingMessage requiredCount marks availableCount] else mm)) acc rc
   = acc @ map (\<lambda>(m, r). missingMessage r m (int (length (filter (\<lambda>q. qmarks q = m) pool))))
             (filter (\<lambda>(m, r). int (length (filter (\<lambda>q. qmarks q = m) pool)) < r) rc)"
  by (induction rc arbitrary: acc) (auto simp: Let_def)

lemma missingMessages_eq:
  "missingMessages pool rc =
     map (\<lambda>(m, r). missingMessage r m (int (length (filter (\<lambda>q. qmarks q = m) pool))))
         (filter (\<lambda>(m, r). int (length (filter (\<lambda>q. qmarks q = m) pool)) < r) rc)"
  unfolding missingMessages_def by (simp add: missingMessages_foldl)

























section \<open>Properties of the AI path\<close>

lemma disciplined_append:
  "disciplined p d (xs @ ys) =
     (disciplined p d xs \<and>
      disciplined (p \<or> list_ex productive xs) (if xs = [] then d else last xs = Delay 1500) ys)"
  by (induction xs arbitrary: p d) auto

lemma disciplined_no_request: "\<forall>e\<in>set es. \<not> isRequest e \<Longrightarrow> disciplined p d es"
  by (induction es arbitrary: p d) auto

lemma disciplined_index:
  "disciplined p d tr \<Longrightarrow> i < length tr \<Longrightarrow> isRequest (tr ! i) \<Longrightarrow>
     (if i = 0 then d else tr ! (i - 1) = Delay 1500) = (p \<or> list_ex productive (take i tr))"
proof (induction tr arbitrary: p d i)
  case Nil
  then show ?case by simp
next
  case (Cons e es)
  show ?case
  proof (cases i)
    case 0
    then show ?thesis using Cons.prems by simp
  next
    case (Suc j)
    have "disciplined (p \<or> productive e) (e = Delay 1500) es" "j < length es" "isRequest (es ! j)"
      using Cons.prems Suc by simp_all
    from Cons.IH[OF this] show ?thesis using Suc by (cases j) auto
  qed
qed

lemma length_newQuestions: "length (newQuestions w g k ch m batch) = length batch"
  by (simp add: newQuestions_def)

lemma newQuestions_Nil: "newQuestions w g k ch m batch = [] \<longleftrightarrow> batch = []"
  using length_newQuestions[of w g k ch m batch] by (metis length_0_conv)

lemma makeRequests_traceOk:
  "traceOk pre st \<Longrightarrow> makeRequests w g chs m reqs st = (r, st') \<Longrightarrow> traceOk pre st'"
proof (induction reqs arbitrary: st)
  case Nil
  then show ?case by simp
next
  case (Cons a reqs)
  obtain cnt qtype where a: "a = (cnt, qtype)" by (cases a)
  define criteria where "criteria = requestCriteria g (chapterFor w chs (calls st)) m cnt qtype"
  define outcome where "outcome = generateQuestionsAI w (calls st) criteria (existingQuestionPool st) (userApiKey g)"
  define delayed where "delayed = (if length (finalQuestions st) > 0 then [Delay 1500] else [])"
  define st1 where "st1 = st \<lparr> calls := Suc (calls st), trace := trace st @ delayed @ [Request criteria outcome] \<rparr>"
  let ?T = "pre @ trace st"
  have T: "disciplined False False ?T" "?T \<noteq> [] \<longrightarrow> last ?T \<noteq> Delay 1500"
    "0 < length (finalQuestions st) \<longleftrightarrow> list_ex productive ?T"
    using Cons.prems(1) by (auto simp: traceOk_def)
  have d1: "disciplined False False (?T @ delayed @ [Request criteria outcome])"
    using T by (auto simp: disciplined_append delayed_def isRequest_def productive_def)
  have tr1: "pre @ trace st1 = ?T @ delayed @ [Request criteria outcome]" by (simp add: st1_def)
  have l1: "pre @ trace st1 \<noteq> [] \<longrightarrow> last (pre @ trace st1) \<noteq> Delay 1500" by (simp add: st1_def)
  have p1: "list_ex productive (pre @ trace st1) \<longleftrightarrow>
      list_ex productive ?T \<or> productive (Request criteria outcome)"
    unfolding tr1 by (auto simp: delayed_def productive_def)
  have f1: "finalQuestions st1 = finalQuestions st" by (simp add: st1_def)
  show ?case
  proof (cases outcome)
    case (Inl error)
    then have "st' = st1" using Cons.prems(2)
      unfolding st1_def delayed_def outcome_def criteria_def by (auto simp: a Let_def)
    moreover have "\<not> productive (Request criteria outcome)" using Inl by (simp add: productive_def)
    ultimately show ?thesis unfolding traceOk_def
    proof (intro conjI)
      assume s: "st' = st1" and n: "\<not> productive (Request criteria outcome)"
      show "disciplined False False (pre @ trace st')" using d1 by (simp only: s tr1)
      show "pre @ trace st' \<noteq> [] \<longrightarrow> last (pre @ trace st') \<noteq> Delay 1500" using l1 by (simp only: s)
      show "(0 < length (finalQuestions st')) = list_ex productive (pre @ trace st')"
        using p1 n T(3) by (simp only: s f1) blast
    qed
  next
    case (Inr batch)
    define st2 where "st2 = (if length batch > 0
                then (let new = newQuestions w g (calls st) (chapterFor w chs (calls st)) m batch
                      in st1 \<lparr> finalQuestions := finalQuestions st1 @ new,
                               existingQuestionPool := existingQuestionPool st1 @ new \<rparr>)
                else st1)"
    have run: "makeRequests w g chs m reqs st2 = (r, st')" using Cons.prems(2) Inr
      unfolding st2_def st1_def delayed_def outcome_def criteria_def by (auto simp: a Let_def)
    have tr2: "trace st2 = trace st1" by (simp add: st2_def Let_def)
    have f2: "0 < length (finalQuestions st2) \<longleftrightarrow> 0 < length (finalQuestions st) \<or> batch \<noteq> []"
      by (auto simp: st2_def st1_def Let_def newQuestions_Nil)
    have p2: "productive (Request criteria outcome) \<longleftrightarrow> batch \<noteq> []"
      by (simp add: productive_def Inr)
    have "traceOk pre st2"
      unfolding traceOk_def tr2
    proof (intro conjI)
      show "disciplined False False (pre @ trace st1)" using d1 by (simp only: tr1)
      show "pre @ trace st1 \<noteq> [] \<longrightarrow> last (pre @ trace st1) \<noteq> Delay 1500" using l1 .
      show "(0 < length (finalQuestions st2)) = list_ex productive (pre @ trace st1)"
        using f2 p1 p2 T(3) by blast
    qed
    from Cons.IH[OF this run] show ?thesis .
  qed
qed

lemma generateGroups_traceOk:
  "traceOk pre st \<Longrightarrow> generateGroups w g chs d st = (r, st') \<Longrightarrow> traceOk pre st'"
proof (induction d arbitrary: st)
  case Nil
  then show ?case by simp
next
  case (Cons a d)
  obtain cnt m where a: "a = (cnt, m)" by (cases a)
  show ?case
  proof (cases "cnt \<le> 0")
    case True
    then show ?thesis using Cons a by simp
  next
    case False
    obtain r1 st1 where m1: "makeRequests w g chs m (requestsToMake cnt (aiQuestionType (settings g))) st = (r1, st1)"
      by (cases "makeRequests w g chs m (requestsToMake cnt (aiQuestionType (settings g))) st")
    have ok1: "traceOk pre st1" using makeRequests_traceOk[OF Cons.prems(1) m1] .
    show ?thesis
    proof (cases r1)
      case None
      then have "generateGroups w g chs d st1 = (r, st')" using Cons.prems(2) False m1 by (simp add: a)
      from Cons.IH[OF ok1 this] show ?thesis .
    next
      case (Some e)
      then have "st' = st1" using Cons.prems(2) False m1 by (simp add: a)
      then show ?thesis using ok1 by simp
    qed
  qed
qed


lemma computeDistribution_effects:
  assumes "computeDistribution w g = Some (effects, result)"
  shows "(result \<noteq> None \<longrightarrow> effects = []) \<and> (\<forall>e\<in>set effects. \<not> isRequest e)"
proof (cases "generationMode (settings g)")
  case DistributionMode
  then show ?thesis using assms
    by (auto simp: computeDistribution_def explicitDistribution_def Let_def formatToast_def
        isRequest_def split: if_splits)
next
  case TotalMarksMode
  then show ?thesis using assms
    by (auto simp: computeDistribution_def findDistribution_cases invalidToast_def isRequest_def
        split: option.splits if_splits)
qed

lemma bankEffects_no_request:
  "\<forall>e\<in>set onSuccess. \<not> isRequest e \<Longrightarrow> \<forall>e\<in>set (bankEffects w g result onSuccess). \<not> isRequest e"
  by (auto simp: bankEffects_def isRequest_def split: sum.splits)

lemma catchAIError_no_request:
  "catchAIError w g d error = (effects, thrown) \<Longrightarrow> \<forall>e\<in>set effects. \<not> isRequest e"
  using bankEffects_no_request[of "[ShowToast (Translated ''fallbackSuccess'') Success]" w g
      "generateFromBank w g d"]
  by (auto simp: catchAIError_def isRequest_def split: sum.splits)

lemma disciplined_then_quiet:
  assumes "disciplined p d xs" and "\<forall>e\<in>set ys. \<not> isRequest e"
  shows "disciplined p d (xs @ ys)"
  using assms by (simp add: disciplined_append disciplined_no_request)

lemma aiBranch_disciplined:
  assumes "aiBranch w g d = (effects, thrown)"
  shows "disciplined False False effects"
proof (cases "length (aiChaptersOf g) = 0")
  case True
  then show ?thesis using assms by (auto simp: aiBranch_def Let_def isRequest_def)
next
  case False
  obtain r st where run: "generateGroups w g (aiChaptersOf g) d (initialAIState g) = (r, st)"
    by (cases "generateGroups w g (aiChaptersOf g) d (initialAIState g)")
  have "traceOk [] (initialAIState g)" by (simp add: traceOk_def initialAIState_def)
  from generateGroups_traceOk[OF this run] have tr: "disciplined False False (trace st)"
    by (simp add: traceOk_def)
  show ?thesis
  proof (cases r)
    case None
    then have "effects = trace st @ [SetGeneratedPaper (Some (createPaper w g (finalQuestions st) Generated))]"
      using assms False run by (simp add: aiBranch_def Let_def)
    then show ?thesis using disciplined_then_quiet[OF tr] by (simp add: isRequest_def)
  next
    case (Some error)
    obtain effs th where c: "catchAIError w g d error = (effs, th)" by (cases "catchAIError w g d error")
    then have "effects = trace st @ effs" using assms False run Some by (simp add: aiBranch_def Let_def)
    then show ?thesis using disciplined_then_quiet[OF tr catchAIError_no_request[OF c]] by simp
  qed
qed

lemma handleGenerate_disciplined:
  assumes "handleGenerate w g useAI = Some effects"
  shows "disciplined False False effects"
proof -
  obtain effs0 result where cd: "computeDistribution w g = Some (effs0, result)"
    using assms by (cases "computeDistribution w g") (auto simp: handleGenerate_def)
  note ce = computeDistribution_effects[OF cd]
  show ?thesis
  proof (cases result)
    case None
    then have "effects = [SetIsGenerating True, SetGeneratedPaper None] @ effs0 @ [SetIsGenerating False]"
      using assms cd by (simp add: handleGenerate_def)
    moreover have "\<forall>e\<in>set ([SetIsGenerating True, SetGeneratedPaper None] @ effs0 @ [SetIsGenerating False]). \<not> isRequest e"
      using ce by (auto simp: isRequest_def)
    ultimately show ?thesis using disciplined_no_request by blast
  next
    case (Some d)
    then have e0: "effs0 = []" using ce by simp
    show ?thesis
    proof (cases useAI)
      case False
      then have "effects = [SetIsGenerating True, SetGeneratedPaper None] @
          bankEffects w g (generateFromBank w g d) [] @ [SetIsGenerating False]"
        using assms cd Some e0 by (simp add: handleGenerate_def)
      moreover have "\<forall>e\<in>set ([SetIsGenerating True, SetGeneratedPaper None] @
          bankEffects w g (generateFromBank w g d) [] @ [SetIsGenerating False]). \<not> isRequest e"
        using bankEffects_no_request[of "[]" w g "generateFromBank w g d"] by (auto simp: isRequest_def)
      ultimately show ?thesis using disciplined_no_request by blast
    next
      case True
      obtain effs1 thrown where ab: "aiBranch w g d = (effs1, thrown)" by (cases "aiBranch w g d")
      have d1: "disciplined False False effs1" using aiBranch_disciplined[OF ab] .
      obtain post where post: "effects = [SetIsGenerating True, SetGeneratedPaper None] @ effs1 @ post"
        "\<forall>e\<in>set post. \<not> isRequest e"
        using assms cd Some e0 True ab
        by (cases thrown) (auto simp: handleGenerate_def isRequest_def split: type_error.splits)
      have "disciplined False False (effs1 @ post)" using disciplined_then_quiet[OF d1 post(2)] .
      then show ?thesis unfolding post(1) by (simp add: isRequest_def productive_def)
    qed
  qed
qed

text \<open>
  Claim C7, as amended. In the effects of one run of \<open>handleGenerate\<close>, the effect just before
  a request is the delay of 1500 ms if and only if an earlier request of the run gave at least
  one question. So the first request is never delayed, and the second one is delayed exactly
  when the first gave at least one question.
\<close>

theorem delay_discipline:
  assumes "handleGenerate w g useAI = Some effects"
    and "i < length effects" and "effects ! i = Request criteria outcome"
  shows "(0 < i \<and> effects ! (i - 1) = Delay 1500) \<longleftrightarrow> list_ex productive (take i effects)"
proof -
  have a: "disciplined False False effects" using assms(1) by (rule handleGenerate_disciplined)
  have b: "isRequest (effects ! i)" using assms(3) by (simp add: isRequest_def)
  have "(if i = 0 then False else effects ! (i - 1) = Delay 1500) =
      (False \<or> list_ex productive (take i effects))"
    using a assms(2) b by (rule disciplined_index)
  then show ?thesis by (cases "i = 0") simp_all
qed

theorem delay_discipline_witness:
  "handleGenerate (exampleWorld (\<lambda>k. if k = 0 then Inr [exampleGenerated] else Inr []))
     (exampleGeneratorFor ''2x5'' [] [''Short Answer'', ''True/False'']) True = Some delayedRun
   \<and> delayedRun ! 4 = Request (exampleCriteria 1 5 ''True/False'') (Inr [])
   \<and> delayedRun ! 3 = Delay 1500
   \<and> list_ex productive (take 4 delayedRun)"
proof -
  have run: "handleGenerate (exampleWorld (\<lambda>k. if k = 0 then Inr [exampleGenerated] else Inr []))
     (exampleGeneratorFor ''2x5'' [] [''Short Answer'', ''True/False'']) True = Some delayedRun"
    by code_simp
  have len: "4 < length delayedRun" by (simp add: delayedRun_def)
  have req: "delayedRun ! 4 = Request (exampleCriteria 1 5 ''True/False'') (Inr [])"
    by (simp add: delayedRun_def)
  have d: "delayedRun ! 3 = Delay 1500" by (simp add: delayedRun_def)
  from delay_discipline[OF run len req] d have "list_ex productive (take 4 delayedRun)" by simp
  then show ?thesis using run req d by simp
qed

text \<open>
  Claim C7 as stated fails where it says that the second request incurs the delay: when the
  first request gives an empty batch, the second request follows it with no delay.
\<close>

theorem second_request_not_delayed_counterexample:
  "handleGenerate (exampleWorld (\<lambda>k. if k = 0 then Inr [] else Inr [exampleGenerated]))
     (exampleGeneratorFor ''2x5'' [] [''Short Answer'', ''True/False'']) True = Some quietRun
   \<and> quietRun ! 2 = Request (exampleCriteria 1 5 ''Short Answer'') (Inr [])
   \<and> quietRun ! 3 = Request (exampleCriteria 1 5 ''True/False'') (Inr [exampleGenerated])
   \<and> Delay 1500 \<notin> set quietRun"
  by code_simp






section \<open>Properties of the heap model\<close>

lemma frame_refl: "frame h h"
  by (simp add: frame_def)

lemma frame_newArray: "frame h0 h \<Longrightarrow> newArray xs h = (r, h') \<Longrightarrow> frame h0 h' \<and> fresh h0 \<le> r"
  by (auto simp: frame_def newArray_def)

lemma frame_filter: "frame h0 h \<Longrightarrow> array_filter P a h = (r, h') \<Longrightarrow> frame h0 h' \<and> fresh h0 \<le> r"
  unfolding array_filter_def by (rule frame_newArray)

lemma frame_slice0: "frame h0 h \<Longrightarrow> array_slice0 c a h = (r, h') \<Longrightarrow> frame h0 h' \<and> fresh h0 \<le> r"
  unfolding array_slice0_def by (rule frame_newArray)

lemma frame_sort: "frame h0 h \<Longrightarrow> fresh h0 \<le> r \<Longrightarrow> frame h0 (array_sort sh r h)"
  by (auto simp: frame_def array_sort_def)

lemma frame_push: "frame h0 h \<Longrightarrow> fresh h0 \<le> r \<Longrightarrow> frame h0 (array_push r xs h)"
  by (auto simp: frame_def array_push_def)

lemma frame_missingLoop: "frame h0 h \<Longrightarrow> missingLoop sp rc mm h = (mm', h') \<Longrightarrow> frame h0 h'"
proof (induction rc arbitrary: mm h)
  case Nil
  then show ?case by simp
next
  case (Cons a rc)
  obtain m r where a: "a = (m, r)" by (cases a)
  obtain t h1 where f: "array_filter (\<lambda>q. qmarks q = m) sp h = (t, h1)"
    by (cases "array_filter (\<lambda>q. qmarks q = m) sp h")
  have "frame h0 h1" using frame_filter[OF Cons.prems(1) f] by simp
  then show ?case using Cons.IH Cons.prems(2) f by (auto simp: a Let_def)
qed

lemma frame_selectLoop:
  "frame h0 h \<Longrightarrow> fresh h0 \<le> fq \<Longrightarrow> frame h0 (selectLoop sh k d sp fq h)"
proof (induction d arbitrary: k sp h)
  case Nil
  then show ?case by simp
next
  case (Cons a d)
  obtain c m where a: "a = (c, m)" by (cases a)
  obtain su h1 where f1: "array_filter (\<lambda>q. qmarks q = m) sp h = (su, h1)"
    by (cases "array_filter (\<lambda>q. qmarks q = m) sp h")
  have 1: "frame h0 h1" "fresh h0 \<le> su" using frame_filter[OF Cons.prems(1) f1] by simp_all
  have 2: "frame h0 (array_sort (sh k) su h1)" using 1 by (rule frame_sort)
  obtain sel h2 where f2: "array_slice0 c su (array_sort (sh k) su h1) = (sel, h2)"
    by (cases "array_slice0 c su (array_sort (sh k) su h1)")
  have 3: "frame h0 h2" using frame_slice0[OF 2 f2] by simp
  define h3 where "h3 = array_push fq (arrays h2 sel) h2"
  have 4: "frame h0 h3" unfolding h3_def using 3 Cons.prems(2) by (rule frame_push)
  obtain sp' h4 where f4: "array_filter (\<lambda>q. \<not> list_ex (\<lambda>s. qid s = qid q) (arrays h3 sel)) sp h3 = (sp', h4)"
    by (cases "array_filter (\<lambda>q. \<not> list_ex (\<lambda>s. qid s = qid q) (arrays h3 sel)) sp h3")
  have 5: "frame h0 h4" using frame_filter[OF 4 f4] by simp
  have "selectLoop sh k (a # d) sp fq h = selectLoop sh (Suc k) d sp' fq h4"
    using f1 f2 f4 by (simp add: a Let_def h3_def)
  then show ?case using Cons.IH[OF 5 Cons.prems(2)] by simp
qed

lemma frame_generateFromBank:
  "frame h0 h \<Longrightarrow> frame h0 (snd (generateFromBank_heap w g bank d h))"
proof -
  assume fr: "frame h0 h"
  obtain oc h1 where f1: "array_filter (\<lambda>q. qclass q = selectedClass g) bank h = (oc, h1)"
    by (cases "array_filter (\<lambda>q. qclass q = selectedClass g) bank h")
  have 1: "frame h0 h1" using frame_filter[OF fr f1] by simp
  obtain sp h2 where f2: "(if avoidPrevious g then array_filter (\<lambda>q. length (usedIn q) = 0) oc h1
                 else (oc, h1)) = (sp, h2)"
    by (cases "(if avoidPrevious g then array_filter (\<lambda>q. length (usedIn q) = 0) oc h1 else (oc, h1))")
  have 2: "frame h0 h2" using f2 1 frame_filter[OF 1] by (auto split: if_splits)
  obtain mm h3 where f3: "missingLoop sp (requiredCounts d) [] h2 = (mm, h3)"
    by (cases "missingLoop sp (requiredCounts d) [] h2")
  have 3: "frame h0 h3" using frame_missingLoop[OF 2 f3] .
  obtain fq h4 where f4: "newArray [] h3 = (fq, h4)" by (cases "newArray [] h3")
  have 4: "frame h0 h4" "fresh h0 \<le> fq" using frame_newArray[OF 3 f4] by simp_all
  have 5: "frame h0 (selectLoop (shuffle w) 0 d sp fq h4)" using 4 by (rule frame_selectLoop)
  show ?thesis using f1 f2 f3 f4 3 5 by (simp add: generateFromBank_heap_def)
qed

lemma frame_makeRequests:
  "frame h0 h \<Longrightarrow> fresh h0 \<le> fq \<Longrightarrow> fresh h0 \<le> ep \<Longrightarrow>
   makeRequests_heap w g chs m reqs fq ep k h = (r, k', h') \<Longrightarrow> frame h0 h'"
proof (induction reqs arbitrary: k h)
  case Nil
  then show ?case by simp
next
  case (Cons a reqs)
  obtain cnt qtype where a: "a = (cnt, qtype)" by (cases a)
  let ?out = "generateQuestionsAI w k (requestCriteria g (chapterFor w chs k) m cnt qtype) (arrays h ep) (userApiKey g)"
  show ?case
  proof (cases ?out)
    case (Inl e)
    then show ?thesis using Cons.prems by (simp add: a Let_def)
  next
    case (Inr batch)
    define hn where "hn = (if length batch > 0
                then (case newArray (newQuestions w g k (chapterFor w chs k) m batch) h of
                        (new, h1) \<Rightarrow>
                          (let h2 = array_push fq (arrays h1 new) h1
                           in array_push ep (arrays h2 new) h2))
                else h)"
    have "frame h0 hn"
    proof (cases "length batch > 0")
      case False
      then show ?thesis using Cons.prems(1) by (simp add: hn_def)
    next
      case True
      obtain new h1 where n: "newArray (newQuestions w g k (chapterFor w chs k) m batch) h = (new, h1)"
        by (cases "newArray (newQuestions w g k (chapterFor w chs k) m batch) h")
      have 1: "frame h0 h1" using frame_newArray[OF Cons.prems(1) n] by simp
      have 2: "frame h0 (array_push fq (arrays h1 new) h1)" using 1 Cons.prems(2) by (rule frame_push)
      have "frame h0 (array_push ep (arrays (array_push fq (arrays h1 new) h1) new) (array_push fq (arrays h1 new) h1))"
        using 2 Cons.prems(3) by (rule frame_push)
      then show ?thesis using True n by (simp add: hn_def Let_def)
    qed
    moreover have "makeRequests_heap w g chs m reqs fq ep (Suc k) hn = (r, k', h')"
      using Cons.prems(4) Inr by (simp add: a Let_def hn_def)
    ultimately show ?thesis using Cons.IH Cons.prems(2,3) by blast
  qed
qed


lemma frame_generateGroups:
  "frame h0 h \<Longrightarrow> fresh h0 \<le> fq \<Longrightarrow> fresh h0 \<le> ep \<Longrightarrow>
   generateGroups_heap w g chs d fq ep k h = (r, k', h') \<Longrightarrow> frame h0 h'"
proof (induction d arbitrary: k h)
  case Nil
  then show ?case by simp
next
  case (Cons a d)
  obtain cnt m where a: "a = (cnt, m)" by (cases a)
  show ?case
  proof (cases "cnt \<le> 0")
    case True
    then show ?thesis using Cons a by simp
  next
    case False
    obtain r1 k1 h1 where m1:
      "makeRequests_heap w g chs m (requestsToMake cnt (aiQuestionType (settings g))) fq ep k h = (r1, k1, h1)"
      by (cases "makeRequests_heap w g chs m (requestsToMake cnt (aiQuestionType (settings g))) fq ep k h")
    have 1: "frame h0 h1" using frame_makeRequests[OF Cons.prems(1,2,3) m1] .
    show ?thesis
    proof (cases r1)
      case None
      then have "generateGroups_heap w g chs d fq ep k1 h1 = (r, k', h')"
        using Cons.prems(4) False m1 by (simp add: a)
      from Cons.IH[OF 1 Cons.prems(2,3) this] show ?thesis .
    next
      case (Some e)
      then have "h' = h1" using Cons.prems(4) False m1 by (simp add: a)
      then show ?thesis using 1 by simp
    qed
  qed
qed

lemma frame_aiBranch: "frame h0 h \<Longrightarrow> frame h0 (aiBranch_heap w g bank d h)"
proof -
  assume fr: "frame h0 h"
  show ?thesis
  proof (cases "length (aiChaptersOf g) = 0")
    case True
    then show ?thesis using fr by (simp add: aiBranch_heap_def)
  next
    case False
    let ?P = "\<lambda>q. qclass q = selectedClass g \<and> (if avoidPrevious g then length (usedIn q) = 0 else True)"
    obtain ep h1 where f1: "array_filter ?P bank h = (ep, h1)" by (cases "array_filter ?P bank h")
    have 1: "frame h0 h1" "fresh h0 \<le> ep" using frame_filter[OF fr f1] by simp_all
    obtain fq h2 where f2: "newArray [] h1 = (fq, h2)" by (cases "newArray [] h1")
    have 2: "frame h0 h2" "fresh h0 \<le> fq" using frame_newArray[OF 1(1) f2] by simp_all
    obtain r k h3 where f3: "generateGroups_heap w g (aiChaptersOf g) d fq ep 0 h2 = (r, k, h3)"
      by (cases "generateGroups_heap w g (aiChaptersOf g) d fq ep 0 h2")
    have 3: "frame h0 h3" using frame_generateGroups[OF 2(1) 2(2) 1(2) f3] .
    have 4: "frame h0 (snd (generateFromBank_heap w g bank d h3))" using 3 by (rule frame_generateFromBank)
    show ?thesis using False f1 f2 f3 3 4
      by (auto simp: aiBranch_heap_def Let_def split: option.splits sum.splits)
  qed
qed

text \<open>
  Claim C9 (the bank is never written). \<open>generateFromBank\<close> and the AI path of
  \<open>handleGenerate\<close>, with its fallback, leave every array that existed before the call as it
  was, the bank among them: they filter and slice into new arrays, and sort and push only
  arrays they made themselves.
\<close>

theorem bank_unchanged:
  assumes "r < fresh h"
  shows "arrays (snd (generateFromBank_heap w g bank d h)) r = arrays h r
       \<and> arrays (aiBranch_heap w g bank d h) r = arrays h r"
  using frame_generateFromBank[OF frame_refl, of h w g bank d] frame_aiBranch[OF frame_refl, of h w g bank d]
    assms by (simp add: frame_def)

text \<open>The loops on the heap compute what the loops on lists compute.\<close>

lemma missingMessages_Cons:
  "missingMessages pool ((m, r) # rc) =
     (if int (length (filter (\<lambda>q. qmarks q = m) pool)) < r
      then [missingMessage r m (int (length (filter (\<lambda>q. qmarks q = m) pool)))] else [])
     @ missingMessages pool rc"
  by (simp add: missingMessages_eq)

lemma missingLoop_pure:
  "sp < fresh h \<Longrightarrow> missingLoop sp rc mm h = (mm', h') \<Longrightarrow>
     mm' = mm @ missingMessages (arrays h sp) rc \<and> fresh h \<le> fresh h' \<and>
     (\<forall>r<fresh h. arrays h' r = arrays h r)"
proof (induction rc arbitrary: mm h)
  case Nil
  then show ?case by (simp add: missingMessages_eq)
next
  case (Cons a rc)
  obtain m r where a: "a = (m, r)" by (cases a)
  define h1 where "h1 = snd (array_filter (\<lambda>q. qmarks q = m) sp h)"
  have h1: "array_filter (\<lambda>q. qmarks q = m) sp h = (fresh h, h1)" "fresh h1 = Suc (fresh h)"
    "arrays h1 (fresh h) = filter (\<lambda>q. qmarks q = m) (arrays h sp)"
    "\<forall>r<fresh h. arrays h1 r = arrays h r"
    by (simp_all add: h1_def array_filter_def newArray_def)
  let ?mm = "if int (length (arrays h1 (fresh h))) < r
             then mm @ [missingMessage r m (int (length (arrays h1 (fresh h))))] else mm"
  have run: "missingLoop sp rc ?mm h1 = (mm', h')" using Cons.prems(2) h1(1) by (simp add: a Let_def)
  have "sp < fresh h1" using Cons.prems(1) h1(2) by simp
  from Cons.IH[OF this run] have ih: "mm' = ?mm @ missingMessages (arrays h1 sp) rc"
    "fresh h1 \<le> fresh h'" "\<forall>r<fresh h1. arrays h' r = arrays h1 r" by simp_all
  have sp: "arrays h1 sp = arrays h sp" using h1(4) Cons.prems(1) by simp
  show ?case using ih h1(2,3,4) sp by (auto simp: a missingMessages_Cons)
qed

lemma selectLoop_pure:
  "sp < fresh h \<Longrightarrow> fq < fresh h \<Longrightarrow> sp \<noteq> fq \<Longrightarrow>
   arrays (selectLoop sh k d sp fq h) fq = selectQuestions sh k d (arrays h sp) (arrays h fq)"
proof (induction d arbitrary: k sp h)
  case Nil
  show ?case by simp
next
  case (Cons a d)
  obtain c m where a: "a = (c, m)" by (cases a)
  let ?suitable = "filter (\<lambda>q. qmarks q = m) (arrays h sp)"
  let ?selected = "slice0 c (sh k ?suitable)"
  let ?pool' = "filter (\<lambda>q. \<not> list_ex (\<lambda>s. qid s = qid q) ?selected) (arrays h sp)"
  define h4 where "h4 = h \<lparr> arrays := (arrays h)
       (fresh h := sh k ?suitable, Suc (fresh h) := ?selected, fq := arrays h fq @ ?selected,
        Suc (Suc (fresh h)) := ?pool'),
       fresh := Suc (Suc (Suc (fresh h))) \<rparr>"
  have step: "selectLoop sh k (a # d) sp fq h = selectLoop sh (Suc k) d (Suc (Suc (fresh h))) fq h4"
    using Cons.prems
    by (simp add: a h4_def array_filter_def newArray_def array_sort_def array_slice0_def
        array_push_def Let_def fun_upd_twist)
  have p: "Suc (Suc (fresh h)) < fresh h4" "fq < fresh h4" "Suc (Suc (fresh h)) \<noteq> fq"
    using Cons.prems by (simp_all add: h4_def)
  have c: "arrays h4 (Suc (Suc (fresh h))) = ?pool'" "arrays h4 fq = arrays h fq @ ?selected"
    using Cons.prems by (simp_all add: h4_def)
  show ?case unfolding step Cons.IH[OF p] c by (simp add: a Let_def)
qed

lemma generateFromBank_heap_pure:
  assumes "bank < fresh h" and "arrays h bank = questions g"
  shows "(case generateFromBank_heap w g bank d h of
            (Inl err, h') \<Rightarrow> generateFromBank w g d = Inl err
          | (Inr r, h') \<Rightarrow> generateFromBank w g d = Inr (arrays h' r))"
proof -
  define h2 where "h2 = snd (if avoidPrevious g
       then array_filter (\<lambda>q. length (usedIn q) = 0) (fresh h) (snd (array_filter (\<lambda>q. qclass q = selectedClass g) bank h))
       else (fresh h, snd (array_filter (\<lambda>q. qclass q = selectedClass g) bank h)))"
  define sp where "sp = (if avoidPrevious g then Suc (fresh h) else fresh h)"
  have pre: "(case array_filter (\<lambda>q. qclass q = selectedClass g) bank h of
        (ofClass, h1) \<Rightarrow> (if avoidPrevious g then array_filter (\<lambda>q. length (usedIn q) = 0) ofClass h1
                 else (ofClass, h1))) = (sp, h2)"
    by (simp add: h2_def sp_def array_filter_def newArray_def)
  have sp: "sp < fresh h2" "arrays h2 sp = bankPool g"
    using assms by (auto simp: h2_def sp_def array_filter_def newArray_def bankPool_def Let_def)
  obtain mm h3 where ml: "missingLoop sp (requiredCounts d) [] h2 = (mm, h3)"
    by (cases "missingLoop sp (requiredCounts d) [] h2")
  from missingLoop_pure[OF sp(1) ml] have m3: "mm = missingMessages (bankPool g) (requiredCounts d)"
    "fresh h2 \<le> fresh h3" "arrays h3 sp = bankPool g" using sp by simp_all
  define h4 where "h4 = snd (newArray [] h3)"
  have n: "newArray [] h3 = (fresh h3, h4)" "sp < fresh h4" "fresh h3 < fresh h4" "sp \<noteq> fresh h3"
    "arrays h4 sp = bankPool g" "arrays h4 (fresh h3) = []"
    using m3 sp(1) by (auto simp: h4_def newArray_def)
  have sel: "arrays (selectLoop (shuffle w) 0 d sp (fresh h3) h4) (fresh h3)
      = selectQuestions (shuffle w) 0 d (bankPool g) []"
    using selectLoop_pure[OF n(2) n(3) n(4), of "shuffle w" 0 d] n(5,6) by simp
  have "generateFromBank_heap w g bank d h =
     (if length mm > 0 then (Inl (''Not enough questions in bank: '' @ join ''; '' mm @ ''.''), h3)
      else (Inr (fresh h3), selectLoop (shuffle w) 0 d sp (fresh h3) h4))"
    using pre ml n(1) unfolding generateFromBank_heap_def
    by (auto split: prod.splits)
  then show ?thesis using m3(1) sel by (simp add: generateFromBank_def Let_def)
qed


lemma makeRequests_heap_pure:
  "sameAccumulators h fq ep k st \<Longrightarrow> makeRequests_heap w g chs m reqs fq ep k h = (r, k', h') \<Longrightarrow>
   \<exists>st'. makeRequests w g chs m reqs st = (r, st') \<and> sameAccumulators h' fq ep k' st'"
proof (induction reqs arbitrary: k h st)
  case Nil
  then show ?case by simp
next
  case (Cons a reqs)
  obtain cnt qtype where a: "a = (cnt, qtype)" by (cases a)
  have s: "fq < fresh h" "ep < fresh h" "fq \<noteq> ep" "arrays h fq = finalQuestions st"
    "arrays h ep = existingQuestionPool st" "calls st = k"
    using Cons.prems(1) by (simp_all add: sameAccumulators_def)
  define criteria where "criteria = requestCriteria g (chapterFor w chs k) m cnt qtype"
  define outcome where "outcome = generateQuestionsAI w k criteria (existingQuestionPool st) (userApiKey g)"
  define st1 where "st1 = st \<lparr> calls := Suc k,
     trace := trace st @ (if length (finalQuestions st) > 0 then [Delay 1500] else []) @ [Request criteria outcome] \<rparr>"
  show ?case
  proof (cases outcome)
    case (Inl e)
    have "makeRequests w g chs m (a # reqs) st = (Some e, st1)"
      using Inl s(6) unfolding outcome_def criteria_def st1_def by (simp add: a Let_def)
    moreover have "r = Some e" "k' = Suc k" "h' = h"
      using Cons.prems(2) Inl s(5) unfolding outcome_def criteria_def by (simp_all add: a Let_def)
    moreover have "sameAccumulators h fq ep (Suc k) st1"
      using s by (simp add: sameAccumulators_def st1_def)
    ultimately show ?thesis by simp
  next
    case (Inr batch)
    define new where "new = newQuestions w g k (chapterFor w chs k) m batch"
    define st2 where "st2 = (if length batch > 0
        then st1 \<lparr> finalQuestions := finalQuestions st1 @ new,
                  existingQuestionPool := existingQuestionPool st1 @ new \<rparr> else st1)"
    define h2 where "h2 = (if length batch > 0
        then (case newArray (newQuestions w g k (chapterFor w chs k) m batch) h of
                (new, h1) \<Rightarrow>
                  (let h2 = array_push fq (arrays h1 new) h1
                   in array_push ep (arrays h2 new) h2))
        else h)"
    have pure: "makeRequests w g chs m (a # reqs) st = makeRequests w g chs m reqs st2"
      using Inr s(6) unfolding outcome_def criteria_def st1_def st2_def new_def by (simp add: a Let_def)
    have heap: "makeRequests_heap w g chs m reqs fq ep (Suc k) h2 = (r, k', h')"
      using Cons.prems(2) Inr s(5) unfolding outcome_def criteria_def h2_def
      by (simp add: a Let_def)
    have "sameAccumulators h2 fq ep (Suc k) st2"
      using s by (auto simp: sameAccumulators_def h2_def st2_def st1_def new_def newArray_def
          array_push_def Let_def)
    from Cons.IH[OF this heap] show ?thesis unfolding pure .
  qed
qed

lemma generateGroups_heap_pure:
  "sameAccumulators h fq ep k st \<Longrightarrow> generateGroups_heap w g chs d fq ep k h = (r, k', h') \<Longrightarrow>
   \<exists>st'. generateGroups w g chs d st = (r, st') \<and> sameAccumulators h' fq ep k' st'"
proof (induction d arbitrary: k h st)
  case Nil
  then show ?case by simp
next
  case (Cons a d)
  obtain cnt m where a: "a = (cnt, m)" by (cases a)
  show ?case
  proof (cases "cnt \<le> 0")
    case True
    then show ?thesis using Cons a by simp
  next
    case False
    obtain r1 k1 h1 where m1:
      "makeRequests_heap w g chs m (requestsToMake cnt (aiQuestionType (settings g))) fq ep k h = (r1, k1, h1)"
      by (cases "makeRequests_heap w g chs m (requestsToMake cnt (aiQuestionType (settings g))) fq ep k h")
    from makeRequests_heap_pure[OF Cons.prems(1) m1] obtain st1 where
      p1: "makeRequests w g chs m (requestsToMake cnt (aiQuestionType (settings g))) st = (r1, st1)"
      and s1: "sameAccumulators h1 fq ep k1 st1" by blast
    show ?thesis
    proof (cases r1)
      case None
      then have "generateGroups_heap w g chs d fq ep k1 h1 = (r, k', h')"
        using Cons.prems(2) False m1 by (simp add: a)
      from Cons.IH[OF s1 this] show ?thesis using False p1 None by (simp add: a)
    next
      case (Some e)
      then have "r = Some e" "k' = k1" "h' = h1" using Cons.prems(2) False m1 by (simp_all add: a)
      then show ?thesis using False p1 Some s1 by (simp add: a)
    qed
  qed
qed

theorem bank_unchanged_witness:
  "0 < fresh (exampleHeap [exampleQuestion ''a'' 10 5 False, exampleQuestion ''b'' 10 5 False])
   \<and> arrays (snd (generateFromBank_heap (exampleWorld (\<lambda>k. Inr [exampleGenerated]))
        (exampleGeneratorFor ''1x5'' [] []) 0 [(1, 5)]
        (exampleHeap [exampleQuestion ''a'' 10 5 False, exampleQuestion ''b'' 10 5 False]))) 0
     = [exampleQuestion ''a'' 10 5 False, exampleQuestion ''b'' 10 5 False]
   \<and> arrays (aiBranch_heap (exampleWorld (\<lambda>k. Inr [exampleGenerated]))
        (exampleGeneratorFor ''1x5'' [] []) 0 [(1, 5)]
        (exampleHeap [exampleQuestion ''a'' 10 5 False, exampleQuestion ''b'' 10 5 False])) 0
     = [exampleQuestion ''a'' 10 5 False, exampleQuestion ''b'' 10 5 False]"
proof -
  let ?h = "exampleHeap [exampleQuestion ''a'' 10 5 False, exampleQuestion ''b'' 10 5 False]"
  have f: "0 < fresh ?h" by (simp add: exampleHeap_def)
  have a: "arrays ?h 0 = [exampleQuestion ''a'' 10 5 False, exampleQuestion ''b'' 10 5 False]"
    by (simp add: exampleHeap_def)
  show ?thesis
    using bank_unchanged[OF f, of "exampleWorld (\<lambda>k. Inr [exampleGenerated])"
        "exampleGeneratorFor ''1x5'' [] []" 0 "[(1, 5)]"] f a by simp
qed



end
